theory Spec2Isabelle
  imports Main "HOL-Library.Word" "HOL-Library.Monad_Syntax"
begin

unbundle bit_operations_syntax

section \<open>Data model\<close>

text \<open>
  A Go \<^verbatim>\<open>byte\<close> is an 8-bit word. \<^verbatim>\<open>type UUID [16]byte\<close> is a fixed array of 16
  bytes; it is modelled as a list of bytes, and the array length (which Go's type
  system fixes) appears in the theorems as \<open>length u = 16\<close>. A Go \<^verbatim>\<open>string\<close> is a
  sequence of bytes, which is what \<^typ>\<open>string\<close> (a list of 8-bit \<^typ>\<open>char\<close>) is.
\<close>

type_synonym byte = "8 word"
type_synonym UUID = "byte list"

text \<open>\<^verbatim>\<open>var Nil UUID\<close>: the zero value of the array type.\<close>

definition Nil :: UUID where
  "Nil = replicate 16 0"

text \<open>
  Go errors. The errors of \<^verbatim>\<open>Parse\<close> are made by \<^verbatim>\<open>fmt.Errorf\<close> and carry only their
  message; \<^verbatim>\<open>io.EOF\<close>, \<^verbatim>\<open>io.ErrUnexpectedEOF\<close> and \<^verbatim>\<open>io.ErrShortBuffer\<close> are the
  sentinels of package \<^verbatim>\<open>io\<close>; \<open>ReaderError\<close> stands for any other error a reader
  reports.
\<close>

datatype error = Errorf string | EOF | ErrUnexpectedEOF | ErrShortBuffer | ReaderError nat

section \<open>The validity predicate\<close>

text \<open>\<^verbatim>\<open>func IsV4(uid UUID) bool\<close>\<close>

definition IsV4 :: "UUID \<Rightarrow> bool" where
  "IsV4 uid =
     (if uid = Nil then True
      else if drop_bit 4 (uid ! 6) \<noteq> 4 then False
      else if drop_bit 6 (uid ! 8) \<noteq> 2 then False
      else True)"

section \<open>Encoding\<close>

text \<open>
  Slices and indexed stores. A store \<^verbatim>\<open>dst[i] = c\<close> panics when \<open>i\<close> is out of range,
  and a slice expression \<^verbatim>\<open>dst[lo:hi]\<close> panics unless \<open>lo \<le> hi \<le> len\<close> (all the slices
  here have their capacity equal to their length). A panic is the value \<open>None\<close>. A
  sub-slice shares its memory with the slice it is taken from: \<open>with_slice\<close> runs an
  operation on the sub-slice and puts what it wrote back in place.
\<close>

definition store :: "'a list \<Rightarrow> nat \<Rightarrow> 'a \<Rightarrow> 'a list option" where
  "store dst i c = (if i < length dst then Some (dst[i := c]) else None)"

definition with_slice ::
  "'a list \<Rightarrow> nat \<Rightarrow> nat \<Rightarrow> ('a list \<Rightarrow> 'a list option) \<Rightarrow> 'a list option" where
  "with_slice dst lo hi f =
     (if lo \<le> hi \<and> hi \<le> length dst then
        (case f (take (hi - lo) (drop lo dst)) of
           None \<Rightarrow> None
         | Some sub \<Rightarrow> Some (take lo dst @ sub @ drop hi dst))
      else None)"

text \<open>
  \<^verbatim>\<open>hex.Encode\<close> of the Go standard library (package \<^verbatim>\<open>encoding/hex\<close>):
  \<^verbatim>\<open>
  const hextable = "0123456789abcdef"
  func Encode(dst, src []byte) int {
      j := 0
      for _, v := range src {
          dst[j] = hextable[v>>4]
          dst[j+1] = hextable[v&0x0f]
          j += 2
      }
      return len(src) * 2
  }
  \<close>
  The model returns the destination after the writes (the count is not used by the
  caller).
\<close>

definition hextable :: string where
  "hextable = ''0123456789abcdef''"

fun hex_Encode_loop :: "string \<Rightarrow> byte list \<Rightarrow> nat \<Rightarrow> string option" where
  "hex_Encode_loop dst [] j = Some dst"
| "hex_Encode_loop dst (v # src) j =
     do {
       dst1 \<leftarrow> store dst j (hextable ! unat (drop_bit 4 v));
       dst2 \<leftarrow> store dst1 (j + 1) (hextable ! unat (v AND 0x0f));
       hex_Encode_loop dst2 src (j + 2)
     }"

definition hex_Encode :: "byte list \<Rightarrow> string \<Rightarrow> string option" where
  "hex_Encode src dst = hex_Encode_loop dst src 0"

text \<open>\<^verbatim>\<open>func encodeHex(dst []byte, id UUID)\<close> (the parameter \<open>id\<close> is written \<open>uid\<close>)\<close>

definition encodeHex :: "string \<Rightarrow> UUID \<Rightarrow> string option" where
  "encodeHex dst uid =
     do {
       dst \<leftarrow> hex_Encode (take 4 uid) dst;
       dst \<leftarrow> store dst 8 CHR ''-'';
       dst \<leftarrow> with_slice dst 9 13 (hex_Encode (take 2 (drop 4 uid)));
       dst \<leftarrow> store dst 13 CHR ''-'';
       dst \<leftarrow> with_slice dst 14 18 (hex_Encode (take 2 (drop 6 uid)));
       dst \<leftarrow> store dst 18 CHR ''-'';
       dst \<leftarrow> with_slice dst 19 23 (hex_Encode (take 2 (drop 8 uid)));
       dst \<leftarrow> store dst 23 CHR ''-'';
       with_slice dst 24 (length dst) (hex_Encode (drop 10 uid))
     }"

text \<open>\<^verbatim>\<open>func (id UUID) String() string\<close>: a 36-byte zeroed buffer, filled by \<open>encodeHex\<close>.\<close>

definition String :: "UUID \<Rightarrow> string option" where
  "String uid = encodeHex (replicate 36 (CHR 0x00)) uid"

section \<open>Decoding\<close>

text \<open>\<^verbatim>\<open>var hexValues = [256]byte{...}\<close>, row by row as in the source.\<close>

definition hexValues :: "byte list" where
  "hexValues = [
    0xff, 0xff, 0xff, 0xff, 0xff, 0xff, 0xff, 0xff, 0xff, 0xff, 0xff, 0xff, 0xff, 0xff, 0xff, 0xff,
    0xff, 0xff, 0xff, 0xff, 0xff, 0xff, 0xff, 0xff, 0xff, 0xff, 0xff, 0xff, 0xff, 0xff, 0xff, 0xff,
    0xff, 0xff, 0xff, 0xff, 0xff, 0xff, 0xff, 0xff, 0xff, 0xff, 0xff, 0xff, 0xff, 0xff, 0xff, 0xff,
    0x00, 0x01, 0x02, 0x03, 0x04, 0x05, 0x06, 0x07, 0x08, 0x09, 0xff, 0xff, 0xff, 0xff, 0xff, 0xff,
    0xff, 0x0a, 0x0b, 0x0c, 0x0d, 0x0e, 0x0f, 0xff, 0xff, 0xff, 0xff, 0xff, 0xff, 0xff, 0xff, 0xff,
    0xff, 0xff, 0xff, 0xff, 0xff, 0xff, 0xff, 0xff, 0xff, 0xff, 0xff, 0xff, 0xff, 0xff, 0xff, 0xff,
    0xff, 0x0a, 0x0b, 0x0c, 0x0d, 0x0e, 0x0f, 0xff, 0xff, 0xff, 0xff, 0xff, 0xff, 0xff, 0xff, 0xff,
    0xff, 0xff, 0xff, 0xff, 0xff, 0xff, 0xff, 0xff, 0xff, 0xff, 0xff, 0xff, 0xff, 0xff, 0xff, 0xff,
    0xff, 0xff, 0xff, 0xff, 0xff, 0xff, 0xff, 0xff, 0xff, 0xff, 0xff, 0xff, 0xff, 0xff, 0xff, 0xff,
    0xff, 0xff, 0xff, 0xff, 0xff, 0xff, 0xff, 0xff, 0xff, 0xff, 0xff, 0xff, 0xff, 0xff, 0xff, 0xff,
    0xff, 0xff, 0xff, 0xff, 0xff, 0xff, 0xff, 0xff, 0xff, 0xff, 0xff, 0xff, 0xff, 0xff, 0xff, 0xff,
    0xff, 0xff, 0xff, 0xff, 0xff, 0xff, 0xff, 0xff, 0xff, 0xff, 0xff, 0xff, 0xff, 0xff, 0xff, 0xff,
    0xff, 0xff, 0xff, 0xff, 0xff, 0xff, 0xff, 0xff, 0xff, 0xff, 0xff, 0xff, 0xff, 0xff, 0xff, 0xff,
    0xff, 0xff, 0xff, 0xff, 0xff, 0xff, 0xff, 0xff, 0xff, 0xff, 0xff, 0xff, 0xff, 0xff, 0xff, 0xff,
    0xff, 0xff, 0xff, 0xff, 0xff, 0xff, 0xff, 0xff, 0xff, 0xff, 0xff, 0xff, 0xff, 0xff, 0xff, 0xff,
    0xff, 0xff, 0xff, 0xff, 0xff, 0xff, 0xff, 0xff, 0xff, 0xff, 0xff, 0xff, 0xff, 0xff, 0xff, 0xff]"

text \<open>\<^verbatim>\<open>var hexStartedIndex = [16]int{...}\<close>\<close>

definition hexStartedIndex :: "nat list" where
  "hexStartedIndex = [0, 2, 4, 6, 9, 11, 14, 16, 19, 21, 24, 26, 28, 30, 32, 34]"

text \<open>
  \<^verbatim>\<open>func hexToByte(x1, x2 byte) (byte, bool)\<close>. The table has 256 entries and is indexed
  by a byte, so the lookup is always in range.
\<close>

definition hexToByte :: "char \<Rightarrow> char \<Rightarrow> byte \<times> bool" where
  "hexToByte x1 x2 =
     (let b1 = hexValues ! of_char x1;
          b2 = hexValues ! of_char x2
      in (push_bit 4 b1 OR b2, b1 \<noteq> 0xff \<and> b2 \<noteq> 0xff))"

text \<open>
  \<^verbatim>\<open>func parse(s string, indexes [16]int) (UUID, error)\<close>: the loop over \<open>indexes\<close>, with
  the loop counter \<open>i\<close> and the array \<open>uid\<close> under construction as arguments. Go returns
  the pair of the identifier and the error (\<open>None\<close> for \<^verbatim>\<open>nil\<close>); reading \<open>s\<close> out of
  range would panic (the outer \<open>None\<close>).
\<close>

fun parse_loop :: "string \<Rightarrow> nat list \<Rightarrow> nat \<Rightarrow> UUID \<Rightarrow> (UUID \<times> error option) option" where
  "parse_loop s [] i uid = Some (uid, None)"
| "parse_loop s (start # indexes) i uid =
     (if start + 1 < length s then
        (case hexToByte (s ! start) (s ! (start + 1)) of
           (v, ok) \<Rightarrow>
             if \<not> ok then Some (Nil, Some (Errorf (''uuid: invalid UUID string: '' @ s)))
             else parse_loop s indexes (i + 1) (uid[i := v]))
      else None)"

definition parse :: "string \<Rightarrow> nat list \<Rightarrow> (UUID \<times> error option) option" where
  "parse s indexes = parse_loop s indexes 0 (replicate 16 0)"

text \<open>\<^verbatim>\<open>func Parse(s string) (UUID, error)\<close>\<close>

definition Parse :: "string \<Rightarrow> (UUID \<times> error option) option" where
  "Parse s =
     (if length s \<noteq> 36 then
        Some (Nil, Some (Errorf (''uuid: incorrect UUID length: '' @ s)))
      else if s ! 8 \<noteq> CHR ''-'' \<or> s ! 13 \<noteq> CHR ''-'' \<or> s ! 18 \<noteq> CHR ''-'' \<or> s ! 23 \<noteq> CHR ''-'' then
        Some (Nil, Some (Errorf ''uuid: expected dashes at positions 8, 13, 18, and 23''))
      else parse s hexStartedIndex)"

section \<open>Entropy sources\<close>

text \<open>
  An \<^verbatim>\<open>io.Reader\<close> is an object with a method \<^verbatim>\<open>Read(p []byte) (n int, err error)\<close>. It
  is modelled by its state and by what \<^verbatim>\<open>Read\<close> does in a state when it is handed a
  buffer of \<open>k\<close> bytes: the bytes it stores at the front of the buffer (their number is
  the \<open>n\<close> it returns), the error it returns, and its next state.
\<close>

record 's Reader =
  Read :: "'s \<Rightarrow> nat \<Rightarrow> byte list \<times> error option \<times> 's"
  state :: 's

text \<open>\<^verbatim>\<open>type ReaderFactory func() io.Reader\<close>\<close>

type_synonym 's ReaderFactory = "unit \<Rightarrow> 's Reader"

text \<open>
  \<^verbatim>\<open>bytes.NewReader(b)\<close> of the Go standard library: the state is the byte slice and the
  read position.
  \<^verbatim>\<open>
  func (r *Reader) Read(b []byte) (n int, err error) {
      if r.i >= int64(len(r.s)) {
          return 0, io.EOF
      }
      r.prevRune = -1
      n = copy(b, r.s[r.i:])
      r.i += int64(n)
      return
  }
  \<close>
\<close>

definition bytes_Reader_Read ::
  "byte list \<times> nat \<Rightarrow> nat \<Rightarrow> byte list \<times> error option \<times> (byte list \<times> nat)" where
  "bytes_Reader_Read r k =
     (case r of (s, i) \<Rightarrow>
        if i \<ge> length s then ([], Some EOF, (s, i))
        else (let data = take k (drop i s) in (data, None, (s, i + length data))))"

definition bytes_NewReader :: "byte list \<Rightarrow> (byte list \<times> nat) Reader" where
  "bytes_NewReader b = \<lparr>Read = bytes_Reader_Read, state = (b, 0)\<rparr>"

text \<open>\<^verbatim>\<open>func StaticReader() io.Reader\<close>\<close>

definition StaticReader :: "(byte list \<times> nat) ReaderFactory" where
  "StaticReader = (\<lambda>_. bytes_NewReader
     [0x00, 0x01, 0x02, 0x03, 0x04, 0x05, 0x06, 0x07,
      0x08, 0x09, 0x0a, 0x0b, 0x0c, 0x0d, 0x0e, 0x0f])"

text \<open>\<^verbatim>\<open>const StaticUUID\<close>\<close>

definition StaticUUID :: string where
  "StaticUUID = ''00010203-0405-4607-8809-0a0b0c0d0e0f''"

text \<open>\<^verbatim>\<open>func (*eofReader) Read(_ []byte) (n int, err error) { return 0, io.EOF }\<close>\<close>

definition eofReader_Read :: "unit \<Rightarrow> nat \<Rightarrow> byte list \<times> error option \<times> unit" where
  "eofReader_Read r k = ([], Some EOF, ())"

text \<open>\<^verbatim>\<open>func ErrorsReader() io.Reader\<close>\<close>

definition ErrorsReader :: "unit ReaderFactory" where
  "ErrorsReader = (\<lambda>_. \<lparr>Read = eofReader_Read, state = ()\<rparr>)"

text \<open>
  \<^verbatim>\<open>io.ReadAtLeast\<close> and \<^verbatim>\<open>io.ReadFull\<close> of the Go standard library:
  \<^verbatim>\<open>
  func ReadAtLeast(r Reader, buf []byte, min int) (n int, err error) {
      if len(buf) < min {
          return 0, ErrShortBuffer
      }
      for n < min && err == nil {
          var nn int
          nn, err = r.Read(buf[n:])
          n += nn
      }
      if n >= min {
          err = nil
      } else if n > 0 && err == EOF {
          err = ErrUnexpectedEOF
      }
      return
  }
  func ReadFull(r Reader, buf []byte) (n int, err error) {
      return ReadAtLeast(r, buf, len(buf))
  }
  \<close>
  The loop runs for as long as the reader returns no error and too few bytes, which
  may be forever: it is a partial function, and \<open>None\<close> is the call that does not
  return. A reader that stores more bytes than the buffer it was handed panics
  with an index out of range, as does the slice \<^verbatim>\<open>buf[n:]\<close> with \<open>n\<close> beyond the buffer;
  this is \<open>None\<close> too. The model returns, with \<open>n\<close> and \<open>err\<close>, the buffer as the reads
  left it and the state of the reader. The parameter \<^verbatim>\<open>min\<close> is written \<open>minimum\<close>.
\<close>

partial_function (option) ReadAtLeast_loop ::
  "('s \<Rightarrow> nat \<Rightarrow> byte list \<times> error option \<times> 's) \<Rightarrow> nat \<Rightarrow> 's \<Rightarrow> byte list \<Rightarrow> nat
     \<Rightarrow> error option \<Rightarrow> (nat \<times> error option \<times> byte list \<times> 's) option" where
  "ReadAtLeast_loop rd minimum st buf n err =
     (if n < minimum \<and> err = None then
        (if length buf < n then None
         else
           (case rd st (length buf - n) of
              (data, err', st') \<Rightarrow>
                if length buf - n < length data then None
                else ReadAtLeast_loop rd minimum st'
                       (take n buf @ data @ drop (n + length data) buf)
                       (n + length data) err'))
      else Some (n, err, buf, st))"

declare ReadAtLeast_loop.simps [code]

definition io_ReadAtLeast ::
  "'s Reader \<Rightarrow> byte list \<Rightarrow> nat \<Rightarrow> (nat \<times> error option \<times> byte list \<times> 's) option" where
  "io_ReadAtLeast r buf minimum =
     (if length buf < minimum then Some (0, Some ErrShortBuffer, buf, state r)
      else
        (case ReadAtLeast_loop (Read r) minimum (state r) buf 0 None of
           None \<Rightarrow> None
         | Some (n, err, buf', st') \<Rightarrow>
             Some (n,
                   (if n \<ge> minimum then None
                    else if n > 0 \<and> err = Some EOF then Some ErrUnexpectedEOF
                    else err),
                   buf', st')))"

definition io_ReadFull ::
  "'s Reader \<Rightarrow> byte list \<Rightarrow> (nat \<times> error option \<times> byte list \<times> 's) option" where
  "io_ReadFull r buf = io_ReadAtLeast r buf (length buf)"

section \<open>The generator\<close>

text \<open>
  \<^verbatim>\<open>func fillUUID(reader io.Reader) (UUID, error)\<close>. The result is Go's pair of the
  identifier and the error, together with the state in which the reader is left.
\<close>

definition fillUUID :: "'s Reader \<Rightarrow> ((UUID \<times> error option) \<times> 's) option" where
  "fillUUID reader =
     (case io_ReadFull reader (replicate 16 0) of
        None \<Rightarrow> None
      | Some (n, err, uid, st') \<Rightarrow>
          if err \<noteq> None then Some ((Nil, err), st')
          else Some ((uid, None), st'))"

text \<open>\<^verbatim>\<open>type V4Generator struct { factory ReaderFactory }\<close>\<close>

record 's V4Generator =
  factory :: "'s ReaderFactory"

text \<open>\<^verbatim>\<open>func NewV4Generator(factory ReaderFactory) *V4Generator\<close>\<close>

definition NewV4Generator :: "'s ReaderFactory \<Rightarrow> 's V4Generator" where
  "NewV4Generator f = \<lparr>factory = f\<rparr>"

text \<open>
  \<^verbatim>\<open>func (v *V4Generator) NewUUID() (UUID, error)\<close>. The package-level \<^verbatim>\<open>New\<close> is this
  method on the generator made from \<^verbatim>\<open>SecureReader\<close>, whose reader is the operating
  system's random source (\<^verbatim>\<open>crypto/rand\<close>); it is an instance of what is shown here
  for any factory.
\<close>

definition NewUUID :: "'s V4Generator \<Rightarrow> ((UUID \<times> error option) \<times> 's) option" where
  "NewUUID v =
     (case fillUUID (factory v ()) of
        None \<Rightarrow> None
      | Some ((uid, err), st') \<Rightarrow>
          if err \<noteq> None then Some ((Nil, err), st')
          else
            (let uid1 = uid[6 := (uid ! 6 AND 0x0f) OR 0x40];
                 uid2 = uid1[8 := (uid1 ! 8 AND 0x3f) OR 0x80]
             in Some ((uid2, err), st')))"

section \<open>Notions of the specification\<close>

text \<open>
  The bit fields the specification names, read off the numeric value of a byte: the
  high nibble is the value divided by 16, the top two bits are the value divided by 64.
\<close>

definition high_nibble :: "byte \<Rightarrow> nat" where
  "high_nibble b = unat b div 16"

definition top_two_bits :: "byte \<Rightarrow> nat" where
  "top_two_bits b = unat b div 64"

text \<open>
  The canonical string form: every byte is written as two lower-case hexadecimal
  digits, the digit of its value divided by 16 and then the digit of the remainder;
  the groups are bytes 0 to 3, 4 to 5, 6 to 7, 8 to 9 and 10 to 15, separated by
  hyphens.
\<close>

definition hex_digit :: "nat \<Rightarrow> char" where
  "hex_digit n = ''0123456789abcdef'' ! n"

definition hex_of_byte :: "byte \<Rightarrow> string" where
  "hex_of_byte b = [hex_digit (unat b div 16), hex_digit (unat b mod 16)]"

definition hex_encode :: "byte list \<Rightarrow> string" where
  "hex_encode bs = concat (map hex_of_byte bs)"

definition canonical :: "UUID \<Rightarrow> string" where
  "canonical u =
     hex_encode (take 4 u) @ ''-'' @ hex_encode (take 2 (drop 4 u)) @ ''-'' @
     hex_encode (take 2 (drop 6 u)) @ ''-'' @ hex_encode (take 2 (drop 8 u)) @ ''-'' @
     hex_encode (drop 10 u)"

text \<open>
  The regular expression
  \<^verbatim>\<open>^[0-9a-f]{8}-[0-9a-f]{4}-[0-9a-f]{4}-[0-9a-f]{4}-[0-9a-f]{12}$\<close>,
  group by group.
\<close>

definition lower_hex :: "char \<Rightarrow> bool" where
  "lower_hex c \<longleftrightarrow> c \<in> set ''0123456789abcdef''"

definition canonical_form :: "string \<Rightarrow> bool" where
  "canonical_form s \<longleftrightarrow>
     length s = 36 \<and>
     list_all lower_hex (take 8 s) \<and> s ! 8 = CHR ''-'' \<and>
     list_all lower_hex (take 4 (drop 9 s)) \<and> s ! 13 = CHR ''-'' \<and>
     list_all lower_hex (take 4 (drop 14 s)) \<and> s ! 18 = CHR ''-'' \<and>
     list_all lower_hex (take 4 (drop 19 s)) \<and> s ! 23 = CHR ''-'' \<and>
     list_all lower_hex (drop 24 s)"

text \<open>
  A valid hexadecimal digit, in either case, and the well-formed input of the
  decoder: 36 characters, hyphens at positions 8, 13, 18 and 23, and a hexadecimal
  digit at each of the 32 other positions.
\<close>

definition is_hex :: "char \<Rightarrow> bool" where
  "is_hex c \<longleftrightarrow> c \<in> set ''0123456789abcdefABCDEF''"

definition hex_positions :: "nat list" where
  "hex_positions = [0..<8] @ [9..<13] @ [14..<18] @ [19..<23] @ [24..<36]"

definition well_formed :: "string \<Rightarrow> bool" where
  "well_formed s \<longleftrightarrow>
     length s = 36 \<and>
     s ! 8 = CHR ''-'' \<and> s ! 13 = CHR ''-'' \<and> s ! 18 = CHR ''-'' \<and> s ! 23 = CHR ''-'' \<and>
     list_all (\<lambda>i. is_hex (s ! i)) hex_positions"

text \<open>
  Changing the case of the hexadecimal letters: \<open>upper_case\<close> maps \<open>a\<close> to \<open>f\<close> to
  \<open>A\<close> to \<open>F\<close>, \<open>lower_case\<close> maps them back; every other character is left as it
  is. \<open>upper_variant s t\<close> says that \<open>t\<close> is \<open>s\<close> with some (any) of its letters \<open>a\<close>
  to \<open>f\<close> replaced by their upper-case forms.
\<close>

definition upper_case :: "char \<Rightarrow> char" where
  "upper_case c =
     (case map_of (zip ''abcdef'' ''ABCDEF'') c of Some d \<Rightarrow> d | None \<Rightarrow> c)"

definition lower_case :: "char \<Rightarrow> char" where
  "lower_case c =
     (case map_of (zip ''ABCDEF'' ''abcdef'') c of Some d \<Rightarrow> d | None \<Rightarrow> c)"

definition upper_variant :: "string \<Rightarrow> string \<Rightarrow> bool" where
  "upper_variant s t \<longleftrightarrow> list_all2 (\<lambda>c d. d = c \<or> d = upper_case c) s t"

section \<open>Bytes and bit fields\<close>

lemma unat_shr4: "unat (drop_bit 4 (b::byte)) = unat b div 16"
  by (simp add: unat_drop_bit_eq drop_bit_eq_div unat_div)

lemma unat_shr6: "unat (drop_bit 6 (b::byte)) = unat b div 64"
  by (simp add: unat_drop_bit_eq drop_bit_eq_div unat_div)

lemma shr4_eq_4: "drop_bit 4 (b::byte) = 4 \<longleftrightarrow> high_nibble b = 4"
  using unat_shr4[of b] by (auto simp: high_nibble_def word_eq_iff_unsigned [where ?'a = nat])

lemma shr6_eq_2: "drop_bit 6 (b::byte) = 2 \<longleftrightarrow> top_two_bits b = 2"
  using unat_shr6[of b] by (auto simp: top_two_bits_def word_eq_iff_unsigned [where ?'a = nat])

lemma Nil_explicit: "Nil = [0, 0, 0, 0, 0, 0, 0, 0, 0, 0, 0, 0, 0, 0, 0, 0]"
  by (simp add: Nil_def numeral_eq_Suc)

lemma Nil_iff: "u = Nil \<longleftrightarrow> length u = 16 \<and> (\<forall>i<16. u ! i = 0)"
  by (auto simp: Nil_def list_eq_iff_nth_eq)

lemma IsV4_iff:
  "IsV4 u \<longleftrightarrow> (u = Nil \<or> (high_nibble (u ! 6) = 4 \<and> top_two_bits (u ! 8) = 2))"
  by (simp add: IsV4_def shr4_eq_4 shr6_eq_2)

section \<open>Hexadecimal digits\<close>

lemma unat_and_0f: "unat ((b::byte) AND 0x0f) = unat b mod 16"
proof -
  have "(0x0f :: byte) = mask 4" by (simp add: mask_eq_exp_minus_1)
  then have "b AND 0x0f = take_bit 4 b" by (simp only: take_bit_eq_mask)
  then show ?thesis by (simp add: unsigned_take_bit_eq take_bit_eq_mod unat_mod)
qed

lemma hextable_hi: "hextable ! unat (drop_bit 4 (b::byte)) = hex_digit (unat b div 16)"
  by (simp add: unat_shr4 hextable_def hex_digit_def)

lemma hextable_lo: "hextable ! unat ((b::byte) AND 0x0f) = hex_digit (unat b mod 16)"
  by (simp only: unat_and_0f hextable_def hex_digit_def)

lemma hexValues_valid_all: "\<forall>c::char. (hexValues ! of_char c \<noteq> 0xff) = is_hex c"
  by code_simp

lemma hexValues_valid: "hexValues ! of_char c \<noteq> 0xff \<longleftrightarrow> is_hex c"
  using hexValues_valid_all by blast

lemma hexToByte_ok: "snd (hexToByte x1 x2) \<longleftrightarrow> is_hex x1 \<and> is_hex x2"
  by (simp add: hexToByte_def Let_def hexValues_valid)

lemma recompose: "push_bit 4 (drop_bit 4 (b::byte)) OR take_bit 4 b = b"
  by (rule bit_eqI) (auto simp: bit_simps)

lemma of_nat_unat_div16: "of_nat (unat (b::byte) div 16) = drop_bit 4 b"
  by (simp add: unat_shr4[symmetric])

lemma unat_take_bit4: "unat (take_bit 4 (b::byte)) = unat b mod 16"
  by (simp add: unsigned_take_bit_eq take_bit_eq_mod unat_mod)

lemma of_nat_unat_mod16: "of_nat (unat (b::byte) mod 16) = take_bit 4 b"
  by (simp add: unat_take_bit4[symmetric])

lemma hexValues_hex_digit_all: "list_all (\<lambda>n. hexValues ! of_char (hex_digit n) = of_nat n) [0..<16]"
  by code_simp

lemma hexValues_hex_digit: "n < 16 \<Longrightarrow> hexValues ! of_char (hex_digit n) = of_nat n"
  using hexValues_hex_digit_all by (simp add: list_all_iff)


lemma unat_byte_less: "unat (b::byte) < 256"
  using unsigned_less[of b] by simp

lemma hexToByte_hex_digit:
  "hexToByte (hex_digit (unat b div 16)) (hex_digit (unat b mod 16)) = (b, True)"
proof -
  have d: "unat b div 16 < 16" using unat_byte_less[of b] by simp
  have m: "unat b mod 16 < 16" by simp
  have v1: "hexValues ! of_char (hex_digit (unat b div 16)) = drop_bit 4 b"
    by (simp only: hexValues_hex_digit[OF d] of_nat_unat_div16)
  have v2: "hexValues ! of_char (hex_digit (unat b mod 16)) = take_bit 4 b"
    by (simp only: hexValues_hex_digit[OF m] of_nat_unat_mod16)
  have "drop_bit 4 b \<noteq> 0xff"
    using d unat_shr4[of b] by (auto simp: word_eq_iff_unsigned [where ?'a = nat])
  moreover have "take_bit 4 b \<noteq> 0xff"
    using m unat_take_bit4[of b] by (auto simp: word_eq_iff_unsigned [where ?'a = nat])
  ultimately show ?thesis
    unfolding hexToByte_def Let_def v1 v2 by (simp add: recompose)
qed

lemma parse_loop_eq:
  assumes "\<forall>st\<in>set idxs. st + 1 < length s" and "i + length idxs \<le> length uid"
  shows "parse_loop s idxs i uid =
     (if \<forall>st\<in>set idxs. snd (hexToByte (s ! st) (s ! (st + 1)))
      then Some (take i uid @ map (\<lambda>st. fst (hexToByte (s ! st) (s ! (st + 1)))) idxs
                   @ drop (i + length idxs) uid, None)
      else Some (Nil, Some (Errorf (''uuid: invalid UUID string: '' @ s))))"
  using assms
proof (induction idxs arbitrary: i uid)
  case Nil
  then show ?case by simp
next
  case (Cons start idxs)
  obtain v ok where h: "hexToByte (s ! start) (s ! (start + 1)) = (v, ok)"
    by (cases "hexToByte (s ! start) (s ! (start + 1))") auto
  from Cons.prems have st: "start + 1 < length s" and i: "i < length uid" by simp_all
  show ?case
  proof (cases ok)
    case False
    with h st show ?thesis by simp
  next
    case True
    have IH: "parse_loop s idxs (i + 1) (uid[i := v]) =
     (if \<forall>st\<in>set idxs. snd (hexToByte (s ! st) (s ! (st + 1)))
      then Some (take (i + 1) (uid[i := v]) @ map (\<lambda>st. fst (hexToByte (s ! st) (s ! (st + 1)))) idxs
                   @ drop (i + 1 + length idxs) (uid[i := v]), None)
      else Some (Nil, Some (Errorf (''uuid: invalid UUID string: '' @ s))))"
      using Cons.prems by (intro Cons.IH) simp_all
    show ?thesis
      using h st True i IH by (simp add: take_Suc_conv_app_nth)
  qed
qed

section \<open>Encoding: the layout of the output\<close>

lemma UUID_explicit:
  assumes "length (u :: 'a list) = 16"
  obtains b0 b1 b2 b3 b4 b5 b6 b7 b8 b9 b10 b11 b12 b13 b14 b15
  where "u = [b0, b1, b2, b3, b4, b5, b6, b7, b8, b9, b10, b11, b12, b13, b14, b15]"
proof -
  have "u = map ((!) u) [0..<16]"
    using assms map_nth[of u] by simp
  also have "[0..<16] = [0, 1, 2, 3, 4, 5, 6, 7, 8, 9, 10, 11, 12, 13, 14, 15::nat]"
    by (simp add: upt_rec)
  finally have "u = [u ! 0, u ! 1, u ! 2, u ! 3, u ! 4, u ! 5, u ! 6, u ! 7,
              u ! 8, u ! 9, u ! 10, u ! 11, u ! 12, u ! 13, u ! 14, u ! 15]"
    by (simp only: list.map)
  then show thesis by (rule that)
qed

lemma length_hex_encode [simp]: "length (hex_encode bs) = 2 * length bs"
  by (induction bs) (simp_all add: hex_encode_def hex_of_byte_def)

lemma hex_encode_Cons: "hex_encode (b # bs) = hex_of_byte b @ hex_encode bs"
  by (simp add: hex_encode_def)

lemma hex_Encode_loop_eq:
  "j + 2 * length src \<le> length dst \<Longrightarrow>
   hex_Encode_loop dst src j = Some (take j dst @ hex_encode src @ drop (j + 2 * length src) dst)"
proof (induction src arbitrary: dst j)
  case Nil
  then show ?case by (simp add: hex_encode_def)
next
  case (Cons v src)
  let ?c1 = "hex_digit (unat v div 16)" and ?c2 = "hex_digit (unat v mod 16)"
  let ?dst2 = "dst[j := ?c1, Suc j := ?c2]"
  from Cons.prems have j: "Suc j < length dst" by simp
  have st: "store dst j ?c1 = Some (dst[j := ?c1])"
    "store (dst[j := ?c1]) (j + 1) ?c2 = Some ?dst2"
    using j by (simp_all add: store_def)
  have IH: "hex_Encode_loop ?dst2 src (j + 2)
      = Some (take (j + 2) ?dst2 @ hex_encode src @ drop (j + 2 + 2 * length src) ?dst2)"
    using Cons.prems by (intro Cons.IH) simp
  have tk: "take (j + 2) ?dst2 = take j dst @ [?c1, ?c2]"
    using j by (simp add: take_Suc_conv_app_nth nth_list_update)
  have dr: "drop (j + 2 + 2 * length src) ?dst2 = drop (j + 2 * length (v # src)) dst"
    by simp
  show ?case
    by (simp only: hex_Encode_loop.simps hextable_hi hextable_lo st bind.simps IH tk dr
        hex_encode_Cons hex_of_byte_def append.simps append_assoc)
qed

lemma hex_Encode_eq:
  "2 * length src \<le> length dst \<Longrightarrow>
   hex_Encode src dst = Some (hex_encode src @ drop (2 * length src) dst)"
  using hex_Encode_loop_eq[of 0 src dst] by (simp add: hex_Encode_def)

lemma store_fresh:
  "length P = i \<Longrightarrow> store (P @ replicate (Suc k) z) i c = Some (P @ [c] @ replicate k z)"
  by (simp add: store_def list_update_append)

lemma with_slice_fresh:
  "length P = lo \<Longrightarrow> hi = lo + 2 * length src \<Longrightarrow> 2 * length src \<le> k \<Longrightarrow>
   with_slice (P @ replicate k z) lo hi (hex_Encode src)
     = Some (P @ hex_encode src @ replicate (k - 2 * length src) z)"
  by (simp add: with_slice_def hex_Encode_eq)


lemma String_eq_canonical:
  assumes len: "length u = 16"
  shows "String u = Some (canonical u)"
proof -
  let ?z = "CHR 0x00"
  let ?A = "hex_encode (take 4 u)"
  let ?B = "hex_encode (take 2 (drop 4 u))"
  let ?C = "hex_encode (take 2 (drop 6 u))"
  let ?D = "hex_encode (take 2 (drop 8 u))"
  let ?E = "hex_encode (drop 10 u)"
  have s1: "hex_Encode (take 4 u) (replicate 36 ?z) = Some (?A @ replicate 28 ?z)"
    using len by (simp add: hex_Encode_eq)
  have s2: "store (?A @ replicate 28 ?z) 8 CHR ''-'' = Some (?A @ ''-'' @ replicate 27 ?z)"
    using len store_fresh[of ?A 8 27 ?z "CHR ''-''"] by simp
  have s3: "with_slice (?A @ ''-'' @ replicate 27 ?z) 9 13 (hex_Encode (take 2 (drop 4 u)))
      = Some ((?A @ ''-'') @ ?B @ replicate 23 ?z)"
    using len with_slice_fresh[of "?A @ ''-''" 9 13 "take 2 (drop 4 u)" 27 ?z] by simp
  have s4: "store ((?A @ ''-'') @ ?B @ replicate 23 ?z) 13 CHR ''-''
      = Some ((?A @ ''-'' @ ?B) @ ''-'' @ replicate 22 ?z)"
    using len store_fresh[of "?A @ ''-'' @ ?B" 13 22 ?z "CHR ''-''"] by simp
  have s5: "with_slice ((?A @ ''-'' @ ?B) @ ''-'' @ replicate 22 ?z) 14 18 (hex_Encode (take 2 (drop 6 u)))
      = Some ((?A @ ''-'' @ ?B @ ''-'') @ ?C @ replicate 18 ?z)"
    using len with_slice_fresh[of "?A @ ''-'' @ ?B @ ''-''" 14 18 "take 2 (drop 6 u)" 22 ?z] by simp
  have s6: "store ((?A @ ''-'' @ ?B @ ''-'') @ ?C @ replicate 18 ?z) 18 CHR ''-''
      = Some ((?A @ ''-'' @ ?B @ ''-'' @ ?C) @ ''-'' @ replicate 17 ?z)"
    using len store_fresh[of "?A @ ''-'' @ ?B @ ''-'' @ ?C" 18 17 ?z "CHR ''-''"] by simp
  have s7: "with_slice ((?A @ ''-'' @ ?B @ ''-'' @ ?C) @ ''-'' @ replicate 17 ?z) 19 23 (hex_Encode (take 2 (drop 8 u)))
      = Some ((?A @ ''-'' @ ?B @ ''-'' @ ?C @ ''-'') @ ?D @ replicate 13 ?z)"
    using len with_slice_fresh[of "?A @ ''-'' @ ?B @ ''-'' @ ?C @ ''-''" 19 23 "take 2 (drop 8 u)" 17 ?z] by simp
  have s8: "store ((?A @ ''-'' @ ?B @ ''-'' @ ?C @ ''-'') @ ?D @ replicate 13 ?z) 23 CHR ''-''
      = Some ((?A @ ''-'' @ ?B @ ''-'' @ ?C @ ''-'' @ ?D) @ ''-'' @ replicate 12 ?z)"
    using len store_fresh[of "?A @ ''-'' @ ?B @ ''-'' @ ?C @ ''-'' @ ?D" 23 12 ?z "CHR ''-''"] by simp
  have l9: "length ((?A @ ''-'' @ ?B @ ''-'' @ ?C @ ''-'' @ ?D) @ ''-'' @ replicate 12 ?z) = 36"
    using len by simp
  have s9: "with_slice ((?A @ ''-'' @ ?B @ ''-'' @ ?C @ ''-'' @ ?D) @ ''-'' @ replicate 12 ?z) 24 36 (hex_Encode (drop 10 u))
      = Some ((?A @ ''-'' @ ?B @ ''-'' @ ?C @ ''-'' @ ?D @ ''-'') @ ?E @ replicate 0 ?z)"
    using len with_slice_fresh[of "?A @ ''-'' @ ?B @ ''-'' @ ?C @ ''-'' @ ?D @ ''-''" 24 36 "drop 10 u" 12 ?z] by simp
  have "String u = Some ((?A @ ''-'' @ ?B @ ''-'' @ ?C @ ''-'' @ ?D @ ''-'') @ ?E @ replicate 0 ?z)"
    unfolding String_def encodeHex_def
    by (simp only: s1 s2 s3 s4 s5 s6 s7 s8 l9 s9 bind.simps)
  then show ?thesis by (simp add: canonical_def)
qed

lemma canonical_explicit:
  "canonical [b0, b1, b2, b3, b4, b5, b6, b7, b8, b9, b10, b11, b12, b13, b14, b15] =
     [hex_digit (unat b0 div 16), hex_digit (unat b0 mod 16),
      hex_digit (unat b1 div 16), hex_digit (unat b1 mod 16),
      hex_digit (unat b2 div 16), hex_digit (unat b2 mod 16),
      hex_digit (unat b3 div 16), hex_digit (unat b3 mod 16), CHR ''-'',
      hex_digit (unat b4 div 16), hex_digit (unat b4 mod 16),
      hex_digit (unat b5 div 16), hex_digit (unat b5 mod 16), CHR ''-'',
      hex_digit (unat b6 div 16), hex_digit (unat b6 mod 16),
      hex_digit (unat b7 div 16), hex_digit (unat b7 mod 16), CHR ''-'',
      hex_digit (unat b8 div 16), hex_digit (unat b8 mod 16),
      hex_digit (unat b9 div 16), hex_digit (unat b9 mod 16), CHR ''-'',
      hex_digit (unat b10 div 16), hex_digit (unat b10 mod 16),
      hex_digit (unat b11 div 16), hex_digit (unat b11 mod 16),
      hex_digit (unat b12 div 16), hex_digit (unat b12 mod 16),
      hex_digit (unat b13 div 16), hex_digit (unat b13 mod 16),
      hex_digit (unat b14 div 16), hex_digit (unat b14 mod 16),
      hex_digit (unat b15 div 16), hex_digit (unat b15 mod 16)]"
  by (simp add: canonical_def hex_encode_def hex_of_byte_def)

section \<open>Reading from an entropy source\<close>

lemma ReadAtLeast_loop_result:
  assumes "ReadAtLeast_loop rd m st buf n err = Some r"
  shows "length (fst (snd (snd r))) = length buf \<and> \<not> (fst r < m \<and> fst (snd r) = None)"
proof (rule ReadAtLeast_loop.raw_induct
    [where P = "\<lambda>rd m st buf n err r.
        length (fst (snd (snd r))) = length buf \<and> \<not> (fst r < m \<and> fst (snd r) = None)",
      OF _ assms])
  fix loop rd m st buf n err r
  assume IH: "\<And>rd m st buf n err r. loop rd m st buf n err = Some r \<Longrightarrow>
      length (fst (snd (snd r))) = length (buf :: byte list)
      \<and> \<not> (fst r < (m::nat) \<and> fst (snd r) = (None :: error option))"
    and body: "(if n < m \<and> err = None
        then if length buf < n then None
             else case rd st (length buf - n) of
                  (data, err', st') \<Rightarrow>
                    if length buf - n < length data then None
                    else loop rd m st'
                          (take n buf @ data @ drop (n + length data) buf)
                          (n + length data) err'
        else Some (n, err, buf, st)) =
       Some r"
  show "length (fst (snd (snd r))) = length buf \<and> \<not> (fst r < m \<and> fst (snd r) = None)"
  proof (cases "n < m \<and> err = None")
    case False
    with body show ?thesis by auto
  next
    case True
    obtain data err' st' where rd: "rd st (length buf - n) = (data, err', st')"
      by (cases "rd st (length buf - n)") auto
    from True body rd have ok: "\<not> length buf < n" "\<not> length buf - n < length data"
      and rec: "loop rd m st' (take n buf @ data @ drop (n + length data) buf)
                  (n + length data) err' = Some r"
      by (auto split: if_splits)
    from IH[OF rec] ok show ?thesis by auto
  qed
qed

lemma io_ReadFull_result:
  assumes "io_ReadFull r buf = Some (n, err, buf', st')"
  shows "length buf' = length buf" and "err = None \<longleftrightarrow> length buf \<le> n"
proof -
  from assms obtain n0 e0 where
    loop: "ReadAtLeast_loop (Read r) (length buf) (state r) buf 0 None = Some (n0, e0, buf', st')"
    and n: "n = n0"
    and err: "err = (if n0 \<ge> length buf then None
                    else if n0 > 0 \<and> e0 = Some EOF then Some ErrUnexpectedEOF else e0)"
    by (auto simp: io_ReadFull_def io_ReadAtLeast_def split: option.splits)
  from ReadAtLeast_loop_result[OF loop]
  have len: "length buf' = length buf" and ex: "\<not> (n0 < length buf \<and> e0 = None)"
    by simp_all
  show "length buf' = length buf" by (rule len)
  show "err = None \<longleftrightarrow> length buf \<le> n"
    using ex n err by auto
qed

text \<open>One \<open>Read\<close> that ends the loop: it fills the buffer, or it returns an error.\<close>

lemma io_ReadFull_one_Read:
  assumes "Read r (state r) (length buf) = (data, e, st')"
    and "length data \<le> length buf"
    and "length data = length buf \<or> e \<noteq> None"
    and "buf \<noteq> []"
  shows "io_ReadFull r buf =
     Some (length data,
           (if length data = length buf then None
            else if data \<noteq> [] \<and> e = Some EOF then Some ErrUnexpectedEOF else e),
           data @ drop (length data) buf, st')"
proof -
  have step2: "ReadAtLeast_loop (Read r) (length buf) st' (data @ drop (length data) buf) (length data) e
      = Some (length data, e, data @ drop (length data) buf, st')"
    using assms(2,3) by (subst ReadAtLeast_loop.simps) auto
  have "ReadAtLeast_loop (Read r) (length buf) (state r) buf 0 None
      = Some (length data, e, data @ drop (length data) buf, st')"
    using assms(1,2,4) step2 by (subst ReadAtLeast_loop.simps) simp
  then show ?thesis
    using assms(2) by (auto simp: io_ReadFull_def io_ReadAtLeast_def)
qed


lemma NewUUID_of_ReadFull:
  assumes "io_ReadFull (factory v ()) (replicate 16 0) = Some (n, err, b, st')"
  shows "NewUUID v = (if err \<noteq> None then Some ((Nil, err), st')
                      else Some ((b[6 := (b ! 6 AND 0x0f) OR 0x40, 8 := (b ! 8 AND 0x3f) OR 0x80], None), st'))"
proof -
  have "length b = 16" using io_ReadFull_result(1)[OF assms] by simp
  then show ?thesis
    using assms by (auto simp: NewUUID_def fillUUID_def Let_def)
qed

lemma NewUUID_success:
  assumes "NewUUID v = Some ((u, None), st')"
  obtains n b where "io_ReadFull (factory v ()) (replicate 16 0) = Some (n, None, b, st')"
    and "u = b[6 := (b ! 6 AND 0x0f) OR 0x40, 8 := (b ! 8 AND 0x3f) OR 0x80]"
    and "length b = 16"
proof -
  from assms obtain n err b where
    rf: "io_ReadFull (factory v ()) (replicate 16 0) = Some (n, err, b, st')"
    by (auto simp: NewUUID_def fillUUID_def split: option.splits if_splits)
  from assms NewUUID_of_ReadFull[OF rf] have "err = None"
    and "u = b[6 := (b ! 6 AND 0x0f) OR 0x40, 8 := (b ! 8 AND 0x3f) OR 0x80]"
    by (auto split: if_splits)
  moreover have "length b = 16" using io_ReadFull_result(1)[OF rf] by simp
  ultimately show thesis using rf that by blast
qed

lemma stamped_fields:
  assumes "length b = 16"
  defines "u \<equiv> b[6 := (b ! 6 AND 0x0f) OR 0x40, 8 := (b ! 8 AND 0x3f) OR 0x80]"
  shows "length u = 16" and "u ! 6 = (b ! 6 AND 0x0f) OR 0x40"
    and "u ! 8 = (b ! 8 AND 0x3f) OR 0x80"
    and "\<forall>i<16. i \<noteq> 6 \<and> i \<noteq> 8 \<longrightarrow> u ! i = b ! i"
    and "high_nibble (u ! 6) = 4" and "top_two_bits (u ! 8) = 2" and "IsV4 u"
proof -
  show l: "length u = 16" using assms by simp
  show u6: "u ! 6 = (b ! 6 AND 0x0f) OR 0x40" using assms by simp
  show u8: "u ! 8 = (b ! 8 AND 0x3f) OR 0x80" using assms by simp
  show "\<forall>i<16. i \<noteq> 6 \<and> i \<noteq> 8 \<longrightarrow> u ! i = b ! i" using assms by simp
  have "drop_bit 4 (u ! 6) = 4" unfolding u6 by simp
  then show h: "high_nibble (u ! 6) = 4" by (simp add: shr4_eq_4)
  have "drop_bit 6 (u ! 8) = 2" unfolding u8 by simp
  then show t: "top_two_bits (u ! 8) = 2" by (simp add: shr6_eq_2)
  from h t show "IsV4 u" by (simp add: IsV4_iff)
qed


lemma NewUUID_StaticReader:
  "NewUUID (NewV4Generator StaticReader) =
     Some (([0x00, 0x01, 0x02, 0x03, 0x04, 0x05, 0x46, 0x07, 0x88, 0x09, 0x0a, 0x0b, 0x0c, 0x0d, 0x0e, 0x0f], None),
           ([0x00, 0x01, 0x02, 0x03, 0x04, 0x05, 0x06, 0x07, 0x08, 0x09, 0x0a, 0x0b, 0x0c, 0x0d, 0x0e, 0x0f], 16))"
proof -
  let ?d = "[0x00, 0x01, 0x02, 0x03, 0x04, 0x05, 0x06, 0x07, 0x08, 0x09, 0x0a, 0x0b, 0x0c, 0x0d, 0x0e, 0x0f] :: byte list"
  have rd: "Read (factory (NewV4Generator StaticReader) ()) (state (factory (NewV4Generator StaticReader) ())) (length (replicate 16 (0::byte)))
      = (?d, None, (?d, 16))"
    by (simp add: NewV4Generator_def StaticReader_def bytes_NewReader_def bytes_Reader_Read_def Let_def)
  have "io_ReadFull (factory (NewV4Generator StaticReader) ()) (replicate 16 0) = Some (16, None, ?d, (?d, 16))"
    using io_ReadFull_one_Read[OF rd] by simp
  from NewUUID_of_ReadFull[OF this] show ?thesis by simp
qed


section \<open>Decoding: the result of \<open>Parse\<close>\<close>

lemma hex_digit_props_all:
  "list_all (\<lambda>n. lower_hex (hex_digit n) \<and> is_hex (hex_digit n) \<and> (of_char (hex_digit n) :: nat) < 128)
     [0..<16]"
  by code_simp

lemma hex_digit_props:
  assumes "n < 16"
  shows "lower_hex (hex_digit n)" "is_hex (hex_digit n)" "(of_char (hex_digit n) :: nat) < 128"
  using hex_digit_props_all assms by (simp_all add: list_all_iff)

lemma hex_digit_div [simp]:
  "lower_hex (hex_digit (unat (b::byte) div 16))" "is_hex (hex_digit (unat b div 16))"
  "(of_char (hex_digit (unat b div 16)) :: nat) < 128"
  using hex_digit_props[of "unat b div 16"] unat_byte_less[of b] by simp_all

lemma hex_digit_mod [simp]:
  "lower_hex (hex_digit (unat (b::byte) mod 16))" "is_hex (hex_digit (unat b mod 16))"
  "(of_char (hex_digit (unat b mod 16)) :: nat) < 128"
  using hex_digit_props[of "unat b mod 16"] by simp_all

lemma Parse_eq:
  assumes "length s = 36"
    and "s ! 8 = CHR ''-''" "s ! 13 = CHR ''-''" "s ! 18 = CHR ''-''" "s ! 23 = CHR ''-''"
  shows "Parse s =
     (if \<forall>st\<in>set hexStartedIndex. snd (hexToByte (s ! st) (s ! (st + 1)))
      then Some (map (\<lambda>st. fst (hexToByte (s ! st) (s ! (st + 1)))) hexStartedIndex, None)
      else Some (Nil, Some (Errorf (''uuid: invalid UUID string: '' @ s))))"
proof -
  have 1: "\<forall>st\<in>set hexStartedIndex. st + 1 < length s"
    using assms(1) by (simp add: hexStartedIndex_def)
  have 2: "0 + length hexStartedIndex \<le> length (replicate 16 (0::byte))"
    by (simp add: hexStartedIndex_def)
  have 3: "length hexStartedIndex = 16" by (simp add: hexStartedIndex_def)
  show ?thesis
    using assms parse_loop_eq[OF 1 2] by (simp add: Parse_def parse_def 3)
qed

lemma Parse_canonical:
  assumes "length u = 16"
  shows "Parse (canonical u) = Some (u, None)"
proof -
  from assms obtain b0 b1 b2 b3 b4 b5 b6 b7 b8 b9 b10 b11 b12 b13 b14 b15
    where u: "u = [b0, b1, b2, b3, b4, b5, b6, b7, b8, b9, b10, b11, b12, b13, b14, b15]"
    by (rule UUID_explicit)
  show ?thesis
    unfolding u canonical_explicit
    by (subst Parse_eq) (simp_all add: hexStartedIndex_def hexToByte_hex_digit)
qed

lemma canonical_form_canonical:
  assumes "length u = 16"
  shows "canonical_form (canonical u)" and "well_formed (canonical u)"
    and "list_all (\<lambda>c. (of_char c :: nat) < 128) (canonical u)"
proof -
  from assms obtain b0 b1 b2 b3 b4 b5 b6 b7 b8 b9 b10 b11 b12 b13 b14 b15
    where u: "u = [b0, b1, b2, b3, b4, b5, b6, b7, b8, b9, b10, b11, b12, b13, b14, b15]"
    by (rule UUID_explicit)
  show "canonical_form (canonical u)"
    unfolding u canonical_explicit by (simp add: canonical_form_def)
  show "well_formed (canonical u)"
    unfolding u canonical_explicit by (simp add: well_formed_def hex_positions_def upt_rec)
  show "list_all (\<lambda>c. (of_char c :: nat) < 128) (canonical u)"
    unfolding u canonical_explicit by simp
qed


lemma Parse_total: "\<exists>u e. Parse s = Some (u, e) \<and> (e \<noteq> None \<longrightarrow> u = Nil)"
proof (cases "length s = 36 \<and> s ! 8 = CHR ''-'' \<and> s ! 13 = CHR ''-'' \<and> s ! 18 = CHR ''-'' \<and> s ! 23 = CHR ''-''")
  case True
  then show ?thesis by (simp add: Parse_eq)
next
  case False
  then show ?thesis by (auto simp: Parse_def)
qed


lemma string36_explicit:
  assumes "length (s :: 'a list) = 36"
  obtains c0 c1 c2 c3 c4 c5 c6 c7 c8 c9 c10 c11 c12 c13 c14 c15 c16 c17 c18 c19 c20 c21 c22 c23
    c24 c25 c26 c27 c28 c29 c30 c31 c32 c33 c34 c35
  where "s = [c0, c1, c2, c3, c4, c5, c6, c7, c8, c9, c10, c11, c12, c13, c14, c15, c16, c17,
              c18, c19, c20, c21, c22, c23, c24, c25, c26, c27, c28, c29, c30, c31, c32, c33,
              c34, c35]"
proof -
  have "s = map ((!) s) [0..<36]"
    using assms map_nth[of s] by simp
  also have "[0..<36] = [0, 1, 2, 3, 4, 5, 6, 7, 8, 9, 10, 11, 12, 13, 14, 15, 16, 17, 18, 19,
      20, 21, 22, 23, 24, 25, 26, 27, 28, 29, 30, 31, 32, 33, 34, 35::nat]"
    by (simp add: upt_rec)
  finally have "s = [s ! 0, s ! 1, s ! 2, s ! 3, s ! 4, s ! 5, s ! 6, s ! 7, s ! 8, s ! 9,
      s ! 10, s ! 11, s ! 12, s ! 13, s ! 14, s ! 15, s ! 16, s ! 17, s ! 18, s ! 19,
      s ! 20, s ! 21, s ! 22, s ! 23, s ! 24, s ! 25, s ! 26, s ! 27, s ! 28, s ! 29,
      s ! 30, s ! 31, s ! 32, s ! 33, s ! 34, s ! 35]"
    by (simp only: list.map)
  then show thesis by (rule that)
qed

lemma hex_positions_explicit:
  "hex_positions = [0, 1, 2, 3, 4, 5, 6, 7, 9, 10, 11, 12, 14, 15, 16, 17, 19, 20, 21, 22,
     24, 25, 26, 27, 28, 29, 30, 31, 32, 33, 34, 35]"
  by (simp add: hex_positions_def upt_rec)

lemma hex_ok_iff:
  "(\<forall>st\<in>set hexStartedIndex. snd (hexToByte (s ! st) (s ! (st + 1))))
     \<longleftrightarrow> list_all (\<lambda>i. is_hex (s ! i)) hex_positions"
  by (simp add: hexStartedIndex_def hex_positions_explicit hexToByte_ok)

lemma Parse_success_iff:
  "Parse s = Some (u, None) \<longleftrightarrow>
     well_formed s \<and> u = map (\<lambda>st. fst (hexToByte (s ! st) (s ! (st + 1)))) hexStartedIndex"
proof (cases "length s = 36 \<and> s ! 8 = CHR ''-'' \<and> s ! 13 = CHR ''-'' \<and> s ! 18 = CHR ''-'' \<and> s ! 23 = CHR ''-''")
  case True
  then show ?thesis
    by (auto simp: Parse_eq well_formed_def hex_ok_iff[symmetric])
next
  case False
  then show ?thesis by (auto simp: Parse_def well_formed_def)
qed

lemma upper_case_cases:
  "upper_case c = c \<or> (c, upper_case c) \<in> set (zip ''abcdef'' ''ABCDEF'')"
  by (simp add: upper_case_def)

lemma upper_case_hexValues: "hexValues ! of_char (upper_case c) = hexValues ! of_char c"
  using upper_case_cases[of c] by (auto simp: hexValues_def)

lemma upper_case_dash: "upper_case c = CHR ''-'' \<longleftrightarrow> c = CHR ''-''"
  using upper_case_cases[of c] by (auto simp: upper_case_def)

lemma lower_case_all:
  "\<forall>c::char. (is_hex c \<longrightarrow> unat (hexValues ! of_char c) < 16
                   \<and> hex_digit (unat (hexValues ! of_char c)) = lower_case c)"
  by code_simp

lemma nibbles_all:
  "list_all (\<lambda>a. list_all (\<lambda>b. unat (push_bit 4 (of_nat a :: byte) OR of_nat b) = 16 * a + b)
     [0..<16]) [0..<16]"
  by code_simp


lemma unat_nibbles:
  assumes "unat (v1::byte) < 16" and "unat (v2::byte) < 16"
  shows "unat (push_bit 4 v1 OR v2) = 16 * unat v1 + unat v2"
proof -
  from nibbles_all have
    "\<And>a b. a < 16 \<Longrightarrow> b < 16 \<Longrightarrow> unat (push_bit 4 (of_nat a :: byte) OR of_nat b) = 16 * a + b"
    by (simp add: list_all_iff)
  from this[OF assms] show ?thesis by simp
qed

lemma hex_digit_hexToByte:
  assumes "is_hex x1" and "is_hex x2"
  shows "hex_digit (unat (fst (hexToByte x1 x2)) div 16) = lower_case x1"
    and "hex_digit (unat (fst (hexToByte x1 x2)) mod 16) = lower_case x2"
proof -
  let ?v1 = "hexValues ! of_char x1" and ?v2 = "hexValues ! of_char x2"
  from lower_case_all assms have
    v1: "unat ?v1 < 16" "hex_digit (unat ?v1) = lower_case x1" and
    v2: "unat ?v2 < 16" "hex_digit (unat ?v2) = lower_case x2"
    by blast+
  have "unat (fst (hexToByte x1 x2)) = 16 * unat ?v1 + unat ?v2"
    using unat_nibbles[OF v1(1) v2(1)] by (simp add: hexToByte_def Let_def)
  then show "hex_digit (unat (fst (hexToByte x1 x2)) div 16) = lower_case x1"
    and "hex_digit (unat (fst (hexToByte x1 x2)) mod 16) = lower_case x2"
    using v1 v2 by simp_all
qed

lemma lower_case_dash: "lower_case CHR ''-'' = CHR ''-''"
  by (simp add: lower_case_def)

lemma canonical_Parse:
  assumes "Parse s = Some (u, None)"
  shows "length u = 16" and "canonical u = map lower_case s"
proof -
  from assms have wf: "well_formed s"
    and u: "u = map (\<lambda>st. fst (hexToByte (s ! st) (s ! (st + 1)))) hexStartedIndex"
    by (simp_all add: Parse_success_iff)
  show "length u = 16" by (simp add: u hexStartedIndex_def)
  from wf have "length s = 36" by (simp add: well_formed_def)
  then obtain c0 c1 c2 c3 c4 c5 c6 c7 c8 c9 c10 c11 c12 c13 c14 c15 c16 c17 c18 c19 c20 c21 c22 c23
    c24 c25 c26 c27 c28 c29 c30 c31 c32 c33 c34 c35
    where s: "s = [c0, c1, c2, c3, c4, c5, c6, c7, c8, c9, c10, c11, c12, c13, c14, c15, c16, c17,
              c18, c19, c20, c21, c22, c23, c24, c25, c26, c27, c28, c29, c30, c31, c32, c33,
              c34, c35]"
    by (rule string36_explicit)
  from wf have h: "is_hex c0" "is_hex c1" "is_hex c2" "is_hex c3" "is_hex c4" "is_hex c5"
    "is_hex c6" "is_hex c7" "c8 = CHR ''-''" "is_hex c9" "is_hex c10" "is_hex c11" "is_hex c12"
    "c13 = CHR ''-''" "is_hex c14" "is_hex c15" "is_hex c16" "is_hex c17" "c18 = CHR ''-''"
    "is_hex c19" "is_hex c20" "is_hex c21" "is_hex c22" "c23 = CHR ''-''" "is_hex c24"
    "is_hex c25" "is_hex c26" "is_hex c27" "is_hex c28" "is_hex c29" "is_hex c30" "is_hex c31"
    "is_hex c32" "is_hex c33" "is_hex c34" "is_hex c35"
    unfolding s well_formed_def hex_positions_explicit by simp_all
  have u': "u = [fst (hexToByte c0 c1), fst (hexToByte c2 c3), fst (hexToByte c4 c5),
      fst (hexToByte c6 c7), fst (hexToByte c9 c10), fst (hexToByte c11 c12),
      fst (hexToByte c14 c15), fst (hexToByte c16 c17), fst (hexToByte c19 c20),
      fst (hexToByte c21 c22), fst (hexToByte c24 c25), fst (hexToByte c26 c27),
      fst (hexToByte c28 c29), fst (hexToByte c30 c31), fst (hexToByte c32 c33),
      fst (hexToByte c34 c35)]"
    unfolding u s hexStartedIndex_def by simp
  show "canonical u = map lower_case s"
    unfolding u' canonical_explicit
    by (simp add: s h hex_digit_hexToByte lower_case_dash)
qed

lemma upper_variant_Parse:
  assumes "Parse s = Some (u, None)" and "upper_variant s t"
  shows "Parse t = Some (u, None)"
proof -
  from assms(1) have wf: "well_formed s"
    and u: "u = map (\<lambda>st. fst (hexToByte (s ! st) (s ! (st + 1)))) hexStartedIndex"
    by (simp_all add: Parse_success_iff)
  from wf have len: "length s = 36" by (simp add: well_formed_def)
  from assms(2) have lt: "length t = 36"
    and var: "\<And>i. i < 36 \<Longrightarrow> t ! i = s ! i \<or> t ! i = upper_case (s ! i)"
    using len by (auto simp: upper_variant_def list_all2_conv_all_nth)
  have val: "hexValues ! of_char (t ! i) = hexValues ! of_char (s ! i)" if "i < 36" for i
    using var[OF that] by (auto simp: upper_case_hexValues)
  have hx: "is_hex (t ! i) = is_hex (s ! i)" if "i < 36" for i
    using val[OF that] by (simp add: hexValues_valid[symmetric])
  have dash: "t ! i = CHR ''-''" if "i < 36" "s ! i = CHR ''-''" for i
    using var[OF that(1)] that(2) by (auto simp: upper_case_dash)
  have h2b: "hexToByte (t ! st) (t ! (st + 1)) = hexToByte (s ! st) (s ! (st + 1))"
    if "st \<in> set hexStartedIndex" for st
  proof -
    from that have "st < 36" "st + 1 < 36" by (auto simp: hexStartedIndex_def)
    then show ?thesis by (simp add: hexToByte_def val)
  qed
  have "list_all (\<lambda>i. is_hex (t ! i)) hex_positions"
  proof -
    have "\<forall>i\<in>set hex_positions. i < 36" by (simp add: hex_positions_explicit)
    with wf hx show ?thesis by (auto simp: well_formed_def list_all_iff)
  qed
  with wf lt dash have "well_formed t" by (simp add: well_formed_def)
  moreover have "map (\<lambda>st. fst (hexToByte (t ! st) (t ! (st + 1)))) hexStartedIndex
      = map (\<lambda>st. fst (hexToByte (s ! st) (s ! (st + 1)))) hexStartedIndex"
    by (rule map_cong[OF refl]) (simp only: h2b)
  then have "u = map (\<lambda>st. fst (hexToByte (t ! st) (t ! (st + 1)))) hexStartedIndex"
    by (simp only: u)
  ultimately show ?thesis by (simp add: Parse_success_iff)
qed


section \<open>The validity predicate: properties\<close>

text \<open>
  Claim C4. For an identifier \<open>u\<close> (16 bytes), \<open>IsV4 u\<close> is true exactly when \<open>u\<close> is
  the nil identifier, that is all its bytes are zero, or the high nibble of byte 6 is
  4 (binary 0100) and the top two bits of byte 8 are 2 (binary 10). In particular
  \<open>IsV4 Nil\<close> holds, an identifier whose byte 6 has high nibble 3 is rejected, and an
  identifier with the right version nibble whose byte 8 is \<open>0x70\<close> is rejected.
\<close>

theorem IsV4_characterisation:
  "length u = 16 \<Longrightarrow>
     (IsV4 u \<longleftrightarrow> (u = Nil \<or> (high_nibble (u ! 6) = 4 \<and> top_two_bits (u ! 8) = 2)))
   \<and> (u = Nil \<longleftrightarrow> (\<forall>i<16. u ! i = 0))
   \<and> IsV4 Nil
   \<and> (high_nibble (u ! 6) = 3 \<longrightarrow> \<not> IsV4 u)
   \<and> (high_nibble (u ! 6) = 4 \<and> u ! 8 = 0x70 \<longrightarrow> \<not> IsV4 u)"
proof (intro conjI impI)
  assume len: "length u = 16"
  show "IsV4 u \<longleftrightarrow> (u = Nil \<or> (high_nibble (u ! 6) = 4 \<and> top_two_bits (u ! 8) = 2))"
    by (rule IsV4_iff)
  show "u = Nil \<longleftrightarrow> (\<forall>i<16. u ! i = 0)"
    using len by (simp add: Nil_iff)
  show "IsV4 Nil"
    by (simp add: IsV4_def)
  { assume h: "high_nibble (u ! 6) = 3"
    then have "u \<noteq> Nil" by (auto simp: Nil_def high_nibble_def)
    with h show "\<not> IsV4 u" by (simp add: IsV4_iff) }
  { assume h: "high_nibble (u ! 6) = 4 \<and> u ! 8 = 0x70"
    then have "u \<noteq> Nil" by (auto simp: Nil_def high_nibble_def)
    with h show "\<not> IsV4 u" by (simp add: IsV4_iff top_two_bits_def) }
qed

theorem IsV4_characterisation_witness:
  "length ([0, 0, 0, 0, 0, 0, 0x40, 0, 0x70, 0, 0, 0, 0, 0, 0, 0] :: UUID) = 16
   \<and> high_nibble (([0, 0, 0, 0, 0, 0, 0x40, 0, 0x70, 0, 0, 0, 0, 0, 0, 0] :: UUID) ! 6) = 4
   \<and> ([0, 0, 0, 0, 0, 0, 0x40, 0, 0x70, 0, 0, 0, 0, 0, 0, 0] :: UUID) ! 8 = 0x70
   \<and> \<not> IsV4 [0, 0, 0, 0, 0, 0, 0x40, 0, 0x70, 0, 0, 0, 0, 0, 0, 0]"
  using IsV4_characterisation [of "[0, 0, 0, 0, 0, 0, 0x40, 0, 0x70, 0, 0, 0, 0, 0, 0, 0]"]
  by (simp add: high_nibble_def top_two_bits_def Nil_explicit)

section \<open>The generator: properties\<close>

text \<open>
  Claim C2. When the read of 16 bytes succeeds and leaves the bytes \<open>b\<close> in the
  buffer, \<open>NewUUID\<close> returns \<open>b\<close> with byte 6 replaced by \<open>(b6 AND 0x0f) OR 0x40\<close> and
  byte 8 replaced by \<open>(b8 AND 0x3f) OR 0x80\<close>, the other 14 bytes unchanged; this
  holds in particular when the reader delivers 16 bytes \<open>data\<close> in its first \<open>Read\<close>.
  Every identifier \<open>u\<close> that \<open>NewUUID\<close> returns without an error arises in this way,
  has 16 bytes, satisfies \<open>IsV4\<close>, and has high nibble 4 in byte 6 and top two bits
  binary 10 in byte 8.
\<close>

theorem NewUUID_stamps:
  "(io_ReadFull (factory v ()) (replicate 16 0) = Some (n, None, b, st') \<longrightarrow>
      length b = 16
      \<and> NewUUID v = Some ((b[6 := (b ! 6 AND 0x0f) OR 0x40, 8 := (b ! 8 AND 0x3f) OR 0x80], None), st'))
   \<and> (Read (factory v ()) (state (factory v ())) 16 = (data, e, st') \<and> length data = 16 \<longrightarrow>
      NewUUID v = Some ((data[6 := (data ! 6 AND 0x0f) OR 0x40, 8 := (data ! 8 AND 0x3f) OR 0x80], None), st'))
   \<and> (NewUUID v = Some ((u, None), st') \<longrightarrow>
      (\<exists>n b. io_ReadFull (factory v ()) (replicate 16 0) = Some (n, None, b, st')
         \<and> length b = 16
         \<and> u ! 6 = (b ! 6 AND 0x0f) OR 0x40
         \<and> u ! 8 = (b ! 8 AND 0x3f) OR 0x80
         \<and> (\<forall>i<16. i \<noteq> 6 \<and> i \<noteq> 8 \<longrightarrow> u ! i = b ! i))
      \<and> length u = 16
      \<and> IsV4 u \<and> high_nibble (u ! 6) = 4 \<and> top_two_bits (u ! 8) = 2)"
proof (intro conjI impI)
  assume rf: "io_ReadFull (factory v ()) (replicate 16 0) = Some (n, None, b, st')"
  show "length b = 16" using io_ReadFull_result(1)[OF rf] by simp
  show "NewUUID v = Some ((b[6 := (b ! 6 AND 0x0f) OR 0x40, 8 := (b ! 8 AND 0x3f) OR 0x80], None), st')"
    using NewUUID_of_ReadFull[OF rf] by simp
next
  assume a: "Read (factory v ()) (state (factory v ())) 16 = (data, e, st') \<and> length data = 16"
  have "io_ReadFull (factory v ()) (replicate 16 0) = Some (16, None, data, st')"
    using io_ReadFull_one_Read[of "factory v ()" "replicate 16 0" data e st'] a by simp
  from NewUUID_of_ReadFull[OF this]
  show "NewUUID v = Some ((data[6 := (data ! 6 AND 0x0f) OR 0x40, 8 := (data ! 8 AND 0x3f) OR 0x80], None), st')"
    by simp
next
  assume ok: "NewUUID v = Some ((u, None), st')"
  from NewUUID_success[OF ok] obtain n b where
    rf: "io_ReadFull (factory v ()) (replicate 16 0) = Some (n, None, b, st')"
    and u: "u = b[6 := (b ! 6 AND 0x0f) OR 0x40, 8 := (b ! 8 AND 0x3f) OR 0x80]"
    and len: "length b = 16"
    by blast
  note f = stamped_fields[OF len, folded u]
  show "\<exists>n b. io_ReadFull (factory v ()) (replicate 16 0) = Some (n, None, b, st')
         \<and> length b = 16
         \<and> u ! 6 = (b ! 6 AND 0x0f) OR 0x40
         \<and> u ! 8 = (b ! 8 AND 0x3f) OR 0x80
         \<and> (\<forall>i<16. i \<noteq> 6 \<and> i \<noteq> 8 \<longrightarrow> u ! i = b ! i)"
    using rf len f(2,3,4) by blast
  show "length u = 16" by (rule f(1))
  show "IsV4 u" by (rule f(7))
  show "high_nibble (u ! 6) = 4" by (rule f(5))
  show "top_two_bits (u ! 8) = 2" by (rule f(6))
qed

theorem NewUUID_stamps_witness:
  "Read (factory (NewV4Generator StaticReader) ()) (state (factory (NewV4Generator StaticReader) ())) 16
     = ([0x00, 0x01, 0x02, 0x03, 0x04, 0x05, 0x06, 0x07, 0x08, 0x09, 0x0a, 0x0b, 0x0c, 0x0d, 0x0e, 0x0f], None,
        ([0x00, 0x01, 0x02, 0x03, 0x04, 0x05, 0x06, 0x07, 0x08, 0x09, 0x0a, 0x0b, 0x0c, 0x0d, 0x0e, 0x0f], 16))
   \<and> NewUUID (NewV4Generator StaticReader) =
     Some (([0x00, 0x01, 0x02, 0x03, 0x04, 0x05, 0x46, 0x07, 0x88, 0x09, 0x0a, 0x0b, 0x0c, 0x0d, 0x0e, 0x0f], None),
           ([0x00, 0x01, 0x02, 0x03, 0x04, 0x05, 0x06, 0x07, 0x08, 0x09, 0x0a, 0x0b, 0x0c, 0x0d, 0x0e, 0x0f], 16))
   \<and> IsV4 [0x00, 0x01, 0x02, 0x03, 0x04, 0x05, 0x46, 0x07, 0x88, 0x09, 0x0a, 0x0b, 0x0c, 0x0d, 0x0e, 0x0f]"
proof -
  let ?d = "[0x00, 0x01, 0x02, 0x03, 0x04, 0x05, 0x06, 0x07, 0x08, 0x09, 0x0a, 0x0b, 0x0c, 0x0d, 0x0e, 0x0f] :: byte list"
  let ?v = "NewV4Generator StaticReader"
  have rd: "Read (factory ?v ()) (state (factory ?v ())) 16 = (?d, None, (?d, 16))"
    by (simp add: NewV4Generator_def StaticReader_def bytes_NewReader_def bytes_Reader_Read_def Let_def)
  then have h: "Read (factory ?v ()) (state (factory ?v ())) 16 = (?d, None, (?d, 16)) \<and> length ?d = 16"
    by simp
  from NewUUID_stamps[of ?v _ _ "(?d, 16)" ?d None]
  have 1: "Read (factory ?v ()) (state (factory ?v ())) 16 = (?d, None, (?d, 16)) \<and> length ?d = 16 \<longrightarrow>
      NewUUID ?v = Some ((?d[6 := (?d ! 6 AND 0x0f) OR 0x40, 8 := (?d ! 8 AND 0x3f) OR 0x80], None), (?d, 16))"
    by blast
  from 1 h have new: "NewUUID ?v = Some ((?d[6 := (?d ! 6 AND 0x0f) OR 0x40, 8 := (?d ! 8 AND 0x3f) OR 0x80], None), (?d, 16))"
    by blast
  then have new': "NewUUID ?v = Some (([0x00, 0x01, 0x02, 0x03, 0x04, 0x05, 0x46, 0x07, 0x88, 0x09, 0x0a, 0x0b, 0x0c, 0x0d, 0x0e, 0x0f], None), (?d, 16))"
    by simp
  from NewUUID_stamps[of ?v _ _ "(?d, 16)" _ _ "[0x00, 0x01, 0x02, 0x03, 0x04, 0x05, 0x46, 0x07, 0x88, 0x09, 0x0a, 0x0b, 0x0c, 0x0d, 0x0e, 0x0f]"] new'
  have "IsV4 [0x00, 0x01, 0x02, 0x03, 0x04, 0x05, 0x46, 0x07, 0x88, 0x09, 0x0a, 0x0b, 0x0c, 0x0d, 0x0e, 0x0f]"
    by blast
  with rd new' show ?thesis by blast
qed

text \<open>
  Claim C7. The source fails when its read of 16 bytes does: \<^verbatim>\<open>io.ReadFull\<close> reports
  an error exactly when it got fewer than 16 bytes, through an error of the source or
  the end of its data (a \<open>Read\<close> that delivers all 16 bytes is a success, whatever
  error comes with them). In that case \<open>NewUUID\<close> returns the nil identifier with that
  error. When
  the first \<open>Read\<close> of the source returns an error and fewer than 16 bytes \<open>data\<close>, the
  call ends there, with the reader in the state that this single \<open>Read\<close> left: the
  failed read is not repeated, and the bytes already stored are not returned (the error
  is the source's, with \<open>EOF\<close> after some bytes reported as \<open>ErrUnexpectedEOF\<close>).
  Whenever \<open>NewUUID\<close> returns an error, the identifier is nil. The always-failing
  source gives \<open>EOF\<close> and the nil identifier.
\<close>

theorem NewUUID_source_failure:
  "(io_ReadFull (factory v ()) (replicate 16 0) = Some (n, err, b, st') \<and> (err \<noteq> None \<or> n < 16) \<longrightarrow>
      err \<noteq> None \<and> n < 16 \<and> NewUUID v = Some ((Nil, err), st'))
   \<and> (Read (factory v ()) (state (factory v ())) 16 = (data, Some e, st') \<and> length data < 16 \<longrightarrow>
      NewUUID v = Some ((Nil, Some (if data \<noteq> [] \<and> e = EOF then ErrUnexpectedEOF else e)), st'))
   \<and> (NewUUID v = Some ((u, Some e'), st'') \<longrightarrow> u = Nil)
   \<and> NewUUID (NewV4Generator ErrorsReader) = Some ((Nil, Some EOF), ())"
proof (intro conjI impI)
  assume a: "io_ReadFull (factory v ()) (replicate 16 0) = Some (n, err, b, st') \<and> (err \<noteq> None \<or> n < 16)"
  then have rf: "io_ReadFull (factory v ()) (replicate 16 0) = Some (n, err, b, st')" by simp
  from io_ReadFull_result(2)[OF rf] a show e: "err \<noteq> None" by auto
  from io_ReadFull_result(2)[OF rf] e show "n < 16" by auto
  from NewUUID_of_ReadFull[OF rf] e show "NewUUID v = Some ((Nil, err), st')" by simp
next
  assume a: "Read (factory v ()) (state (factory v ())) 16 = (data, Some e, st') \<and> length data < 16"
  have "io_ReadFull (factory v ()) (replicate 16 0) =
      Some (length data, (if data \<noteq> [] \<and> e = EOF then Some ErrUnexpectedEOF else Some e),
            data @ drop (length data) (replicate 16 0), st')"
    using io_ReadFull_one_Read[of "factory v ()" "replicate 16 0" data "Some e" st'] a by simp
  from NewUUID_of_ReadFull[OF this]
  show "NewUUID v = Some ((Nil, Some (if data \<noteq> [] \<and> e = EOF then ErrUnexpectedEOF else e)), st')"
    by simp
next
  assume "NewUUID v = Some ((u, Some e'), st'')"
  then show "u = Nil"
    by (auto simp: NewUUID_def Let_def split: option.splits if_splits)
next
  have "Read (factory (NewV4Generator ErrorsReader) ()) (state (factory (NewV4Generator ErrorsReader) ()))
          (length (replicate 16 (0::byte))) = ([], Some EOF, ())"
    by (simp add: NewV4Generator_def ErrorsReader_def eofReader_Read_def)
  from io_ReadFull_one_Read[OF this]
  have "io_ReadFull (factory (NewV4Generator ErrorsReader) ()) (replicate 16 0)
      = Some (0, Some EOF, replicate 16 0, ())"
    by simp
  from NewUUID_of_ReadFull[OF this]
  show "NewUUID (NewV4Generator ErrorsReader) = Some ((Nil, Some EOF), ())" by simp
qed

theorem NewUUID_source_failure_witness:
  "Read (factory (NewV4Generator (\<lambda>_. \<lparr>Read = (\<lambda>c k. ([1, 2, 3, 4, 5], Some (ReaderError 7), Suc c)), state = 0\<rparr>)) ())
        (state (factory (NewV4Generator (\<lambda>_. \<lparr>Read = (\<lambda>c k. ([1, 2, 3, 4, 5], Some (ReaderError 7), Suc c)), state = 0\<rparr>)) ())) 16
     = ([1, 2, 3, 4, 5], Some (ReaderError 7), 1)
   \<and> length ([1, 2, 3, 4, 5] :: byte list) < 16
   \<and> NewUUID (NewV4Generator (\<lambda>_. \<lparr>Read = (\<lambda>c k. ([1, 2, 3, 4, 5], Some (ReaderError 7), Suc c)), state = 0\<rparr>))
       = Some ((Nil, Some (ReaderError 7)), 1)"
  using NewUUID_source_failure
    [of "NewV4Generator (\<lambda>_. \<lparr>Read = (\<lambda>c k. ([1, 2, 3, 4, 5], Some (ReaderError 7), Suc c)), state = 0\<rparr>)"
        _ _ _ 1 "[1, 2, 3, 4, 5]" "ReaderError 7"]
  by (simp add: NewV4Generator_def)

text \<open>
  Claim C8. On the generator bound to \<open>StaticReader\<close>, \<open>NewUUID\<close> succeeds and returns
  the identifier whose canonical string is
  \<open>00010203-0405-4607-8809-0a0b0c0d0e0f\<close>, the constant \<open>StaticUUID\<close>. The generator
  holds no state and the factory makes a fresh reader at each call, so a call is the
  value of \<open>NewUUID\<close> on the generator, the same for every call and for two successive
  ones.
\<close>

theorem StaticReader_deterministic:
  "NewUUID (NewV4Generator StaticReader) =
     Some (([0x00, 0x01, 0x02, 0x03, 0x04, 0x05, 0x46, 0x07, 0x88, 0x09, 0x0a, 0x0b, 0x0c, 0x0d, 0x0e, 0x0f], None),
           ([0x00, 0x01, 0x02, 0x03, 0x04, 0x05, 0x06, 0x07, 0x08, 0x09, 0x0a, 0x0b, 0x0c, 0x0d, 0x0e, 0x0f], 16))
   \<and> String [0x00, 0x01, 0x02, 0x03, 0x04, 0x05, 0x46, 0x07, 0x88, 0x09, 0x0a, 0x0b, 0x0c, 0x0d, 0x0e, 0x0f]
       = Some StaticUUID
   \<and> StaticUUID = ''00010203-0405-4607-8809-0a0b0c0d0e0f''"
proof (intro conjI)
  show "String [0x00, 0x01, 0x02, 0x03, 0x04, 0x05, 0x46, 0x07, 0x88, 0x09, 0x0a, 0x0b, 0x0c, 0x0d, 0x0e, 0x0f]
       = Some StaticUUID"
    by (simp add: String_eq_canonical canonical_explicit hex_digit_def StaticUUID_def)
qed (simp_all add: NewUUID_StaticReader StaticUUID_def)


section \<open>The codec: properties\<close>

text \<open>
  Claim C1. For every identifier \<open>u\<close> (16 bytes, the nil identifier included),
  \<open>String\<close> returns a string, and \<open>Parse\<close> of that string returns \<open>u\<close> and no error.
\<close>

theorem Parse_String_roundtrip:
  "length u = 16 \<Longrightarrow> \<exists>s. String u = Some s \<and> Parse s = Some (u, None)"
  by (simp add: String_eq_canonical Parse_canonical)

theorem Parse_String_roundtrip_witness:
  "length ([0x12, 0x34, 0x56, 0x78, 0x9a, 0xbc, 0xde, 0xf0, 0x0f, 0xed, 0xcb, 0xa9, 0x87, 0x65, 0x43, 0x21] :: UUID) = 16
   \<and> String [0x12, 0x34, 0x56, 0x78, 0x9a, 0xbc, 0xde, 0xf0, 0x0f, 0xed, 0xcb, 0xa9, 0x87, 0x65, 0x43, 0x21]
       = Some ''12345678-9abc-def0-0fed-cba987654321''
   \<and> Parse ''12345678-9abc-def0-0fed-cba987654321''
       = Some ([0x12, 0x34, 0x56, 0x78, 0x9a, 0xbc, 0xde, 0xf0, 0x0f, 0xed, 0xcb, 0xa9, 0x87, 0x65, 0x43, 0x21], None)"
proof -
  let ?u = "[0x12, 0x34, 0x56, 0x78, 0x9a, 0xbc, 0xde, 0xf0, 0x0f, 0xed, 0xcb, 0xa9, 0x87, 0x65, 0x43, 0x21] :: UUID"
  have l: "length ?u = 16" by simp
  have c: "String ?u = Some ''12345678-9abc-def0-0fed-cba987654321''"
    by (simp add: String_eq_canonical canonical_explicit hex_digit_def)
  from Parse_String_roundtrip[OF l] obtain s
    where "String ?u = Some s" and "Parse s = Some (?u, None)"
    by blast
  with c l show ?thesis by simp
qed

text \<open>
  Claim C5. For every identifier \<open>u\<close> (16 bytes), \<open>String\<close> returns (it never panics)
  the canonical layout of \<open>u\<close>: 36 ASCII characters that match the regular expression
  of the canonical form, with the lower-case hexadecimal encoding of bytes 0 to 3 at
  positions 0 to 7, of bytes 4 and 5 at 9 to 12, of bytes 6 and 7 at 14 to 17, of bytes
  8 and 9 at 19 to 22, of bytes 10 to 15 at 24 to 35, and hyphens at 8, 13, 18 and 23.
\<close>

theorem String_layout:
  "length u = 16 \<Longrightarrow>
     String u = Some (canonical u)
   \<and> length (canonical u) = 36
   \<and> list_all (\<lambda>c. (of_char c :: nat) < 128) (canonical u)
   \<and> canonical_form (canonical u)
   \<and> take 8 (canonical u) = hex_encode (take 4 u)
   \<and> take 4 (drop 9 (canonical u)) = hex_encode (take 2 (drop 4 u))
   \<and> take 4 (drop 14 (canonical u)) = hex_encode (take 2 (drop 6 u))
   \<and> take 4 (drop 19 (canonical u)) = hex_encode (take 2 (drop 8 u))
   \<and> drop 24 (canonical u) = hex_encode (drop 10 u)"
proof (intro conjI)
  assume len: "length u = 16"
  show "String u = Some (canonical u)" by (rule String_eq_canonical[OF len])
  show "length (canonical u) = 36" using len by (simp add: canonical_def)
  show "list_all (\<lambda>c. (of_char c :: nat) < 128) (canonical u)"
    by (rule canonical_form_canonical(3)[OF len])
  show "canonical_form (canonical u)" by (rule canonical_form_canonical(1)[OF len])
  show "take 8 (canonical u) = hex_encode (take 4 u)" using len by (simp add: canonical_def)
  show "take 4 (drop 9 (canonical u)) = hex_encode (take 2 (drop 4 u))"
    using len by (simp add: canonical_def)
  show "take 4 (drop 14 (canonical u)) = hex_encode (take 2 (drop 6 u))"
    using len by (simp add: canonical_def)
  show "take 4 (drop 19 (canonical u)) = hex_encode (take 2 (drop 8 u))"
    using len by (simp add: canonical_def)
  show "drop 24 (canonical u) = hex_encode (drop 10 u)"
    using len by (simp add: canonical_def)
qed

theorem String_layout_witness:
  "length ([0xde, 0xad, 0xbe, 0xef, 0x00, 0x01, 0x02, 0x03, 0x04, 0x05, 0x06, 0x07, 0x08, 0x09, 0xfa, 0xff] :: UUID) = 16
   \<and> String [0xde, 0xad, 0xbe, 0xef, 0x00, 0x01, 0x02, 0x03, 0x04, 0x05, 0x06, 0x07, 0x08, 0x09, 0xfa, 0xff]
       = Some ''deadbeef-0001-0203-0405-06070809faff''
   \<and> canonical_form ''deadbeef-0001-0203-0405-06070809faff''"
proof -
  let ?u = "[0xde, 0xad, 0xbe, 0xef, 0x00, 0x01, 0x02, 0x03, 0x04, 0x05, 0x06, 0x07, 0x08, 0x09, 0xfa, 0xff] :: UUID"
  have c: "canonical ?u = ''deadbeef-0001-0203-0405-06070809faff''"
    by (simp add: canonical_explicit hex_digit_def)
  have l: "length ?u = 16" by simp
  from String_layout[OF l]
  have "String ?u = Some (canonical ?u) \<and> canonical_form (canonical ?u)" by blast
  with l show ?thesis by (simp only: c)
qed

text \<open>
  Claim C3. \<open>Parse\<close> checks in a fixed order. A string whose length is not 36 fails
  with the bad-length error, whatever else it contains. A string of length 36 with
  a character other than a hyphen at position 8, 13, 18 or 23 fails with the
  missing-separator error, whatever its other characters. A string of length 36 with
  the four hyphens and a character that is not a hexadecimal digit in one of the 16
  pairs at offsets 0, 2, 4, 6, 9, 11, 14, 16, 19, 21, 24, 26, 28, 30, 32, 34 fails
  with the invalid-digit error. The three errors differ from one another, whatever the
  input strings they quote. \<open>Parse\<close> always returns (it never panics), and whenever it
  returns an error the identifier is nil.
\<close>

theorem Parse_failure_order:
  "(length s \<noteq> 36 \<longrightarrow>
      Parse s = Some (Nil, Some (Errorf (''uuid: incorrect UUID length: '' @ s))))
   \<and> (length s = 36 \<and>
        (s ! 8 \<noteq> CHR ''-'' \<or> s ! 13 \<noteq> CHR ''-'' \<or> s ! 18 \<noteq> CHR ''-'' \<or> s ! 23 \<noteq> CHR ''-'') \<longrightarrow>
      Parse s = Some (Nil, Some (Errorf ''uuid: expected dashes at positions 8, 13, 18, and 23'')))
   \<and> (length s = 36 \<and>
        s ! 8 = CHR ''-'' \<and> s ! 13 = CHR ''-'' \<and> s ! 18 = CHR ''-'' \<and> s ! 23 = CHR ''-'' \<and>
        (\<exists>start \<in> set [0, 2, 4, 6, 9, 11, 14, 16, 19, 21, 24, 26, 28, 30, 32, 34].
            \<not> is_hex (s ! start) \<or> \<not> is_hex (s ! (start + 1))) \<longrightarrow>
      Parse s = Some (Nil, Some (Errorf (''uuid: invalid UUID string: '' @ s))))
   \<and> Errorf (''uuid: incorrect UUID length: '' @ a)
        \<noteq> Errorf ''uuid: expected dashes at positions 8, 13, 18, and 23''
   \<and> Errorf (''uuid: incorrect UUID length: '' @ a) \<noteq> Errorf (''uuid: invalid UUID string: '' @ b)
   \<and> Errorf ''uuid: expected dashes at positions 8, 13, 18, and 23''
        \<noteq> Errorf (''uuid: invalid UUID string: '' @ b)
   \<and> (\<exists>u e. Parse s = Some (u, e) \<and> (e \<noteq> None \<longrightarrow> u = Nil))"
proof (intro conjI impI)
  assume "length s \<noteq> 36"
  then show "Parse s = Some (Nil, Some (Errorf (''uuid: incorrect UUID length: '' @ s)))"
    by (simp add: Parse_def)
next
  assume "length s = 36 \<and>
    (s ! 8 \<noteq> CHR ''-'' \<or> s ! 13 \<noteq> CHR ''-'' \<or> s ! 18 \<noteq> CHR ''-'' \<or> s ! 23 \<noteq> CHR ''-'')"
  then show "Parse s = Some (Nil, Some (Errorf ''uuid: expected dashes at positions 8, 13, 18, and 23''))"
    by (auto simp: Parse_def)
next
  assume a: "length s = 36 \<and>
        s ! 8 = CHR ''-'' \<and> s ! 13 = CHR ''-'' \<and> s ! 18 = CHR ''-'' \<and> s ! 23 = CHR ''-'' \<and>
        (\<exists>start \<in> set [0, 2, 4, 6, 9, 11, 14, 16, 19, 21, 24, 26, 28, 30, 32, 34].
            \<not> is_hex (s ! start) \<or> \<not> is_hex (s ! (start + 1)))"
  then have "\<not> (\<forall>st\<in>set hexStartedIndex. snd (hexToByte (s ! st) (s ! (st + 1))))"
    unfolding hexStartedIndex_def hexToByte_ok by blast
  with a show "Parse s = Some (Nil, Some (Errorf (''uuid: invalid UUID string: '' @ s)))"
    by (simp add: Parse_eq)
next
  show "\<exists>u e. Parse s = Some (u, e) \<and> (e \<noteq> None \<longrightarrow> u = Nil)" by (rule Parse_total)
qed simp_all

theorem Parse_failure_order_witness:
  "length ''12345678-1234-1234-1234-12345678901g'' = 36
   \<and> \<not> is_hex (''12345678-1234-1234-1234-12345678901g'' ! (34 + 1))
   \<and> Parse ''12345678-1234-1234-1234-12345678901g''
       = Some (Nil, Some (Errorf ''uuid: invalid UUID string: 12345678-1234-1234-1234-12345678901g''))
   \<and> Parse ''------------------------------------''
       = Some (Nil, Some (Errorf ''uuid: invalid UUID string: ------------------------------------''))
   \<and> Parse ''123456781234-1234-1234-1234567890120''
       = Some (Nil, Some (Errorf ''uuid: expected dashes at positions 8, 13, 18, and 23''))
   \<and> Parse ''zz''
       = Some (Nil, Some (Errorf ''uuid: incorrect UUID length: zz''))"
  using Parse_failure_order[of "''12345678-1234-1234-1234-12345678901g''"]
    Parse_failure_order[of "''------------------------------------''"]
    Parse_failure_order[of "''123456781234-1234-1234-1234567890120''"]
    Parse_failure_order[of "''zz''"]
  by (simp add: is_hex_def)

text \<open>
  Claim C6. \<open>Parse\<close> does not look at the version and variant bits: every
  well-formed string (36 characters, hyphens at 8, 13, 18 and 23, hexadecimal digits of
  either case at the 32 other positions) decodes to an identifier with no error, and
  for any values \<open>b6\<close> and \<open>b8\<close> there is a well-formed string that decodes to an
  identifier with these bytes 6 and 8.
\<close>

theorem Parse_accepts_well_formed:
  "(well_formed s \<longrightarrow> (\<exists>u. Parse s = Some (u, None) \<and> length u = 16))
   \<and> (\<exists>s u. well_formed s \<and> Parse s = Some (u, None) \<and> u ! 6 = b6 \<and> u ! 8 = b8)"
proof
  show "well_formed s \<longrightarrow> (\<exists>u. Parse s = Some (u, None) \<and> length u = 16)"
    by (simp add: Parse_success_iff hexStartedIndex_def)
  let ?u = "Nil[6 := b6, 8 := b8]"
  have len: "length ?u = 16" by (simp add: Nil_def)
  have "well_formed (canonical ?u)" by (rule canonical_form_canonical(2)[OF len])
  moreover have "Parse (canonical ?u) = Some (?u, None)" by (rule Parse_canonical[OF len])
  moreover have "?u ! 6 = b6" "?u ! 8 = b8" by (simp_all add: Nil_def)
  ultimately show "\<exists>s u. well_formed s \<and> Parse s = Some (u, None) \<and> u ! 6 = b6 \<and> u ! 8 = b8"
    by blast
qed

theorem Parse_accepts_well_formed_witness:
  "well_formed ''00000000-0000-3000-7000-00000000ABcd''
   \<and> Parse ''00000000-0000-3000-7000-00000000ABcd''
       = Some ([0, 0, 0, 0, 0, 0, 0x30, 0, 0x70, 0, 0, 0, 0, 0, 0xab, 0xcd], None)
   \<and> \<not> IsV4 [0, 0, 0, 0, 0, 0, 0x30, 0, 0x70, 0, 0, 0, 0, 0, 0xab, 0xcd]"
proof -
  let ?s = "''00000000-0000-3000-7000-00000000ABcd''"
  have wf: "well_formed ?s"
    by (simp add: well_formed_def hex_positions_explicit is_hex_def)
  with Parse_accepts_well_formed[of ?s] obtain u where p: "Parse ?s = Some (u, None)"
    by blast
  then have "u = [0, 0, 0, 0, 0, 0, 0x30, 0, 0x70, 0, 0, 0, 0, 0, 0xab, 0xcd]"
    by (simp add: Parse_success_iff hexStartedIndex_def hexToByte_def hexValues_def)
  moreover have "\<not> IsV4 [0, 0, 0, 0, 0, 0, 0x30, 0, 0x70, 0, 0, 0, 0, 0, 0xab, 0xcd]"
    by (simp add: IsV4_def Nil_explicit)
  ultimately show ?thesis using wf p by simp
qed

text \<open>
  Claim C9. Decoding ignores the case of the hexadecimal letters and encoding
  normalises it: when \<open>Parse\<close> accepts \<open>s\<close> and \<open>t\<close> is \<open>s\<close> with any of its letters \<open>a\<close>
  to \<open>f\<close> in upper case, \<open>Parse\<close> accepts \<open>t\<close> with the same identifier, and \<open>String\<close>
  of that identifier is \<open>s\<close> with its hexadecimal letters in lower case (which is also
  \<open>t\<close> in lower case): the case of the input is not recovered.
\<close>

theorem Parse_case_insensitive:
  "Parse s = Some (u, None) \<and> upper_variant s t \<longrightarrow>
     Parse t = Some (u, None) \<and> String u = Some (map lower_case s)
     \<and> map lower_case t = map lower_case s"
proof (intro impI conjI)
  assume a: "Parse s = Some (u, None) \<and> upper_variant s t"
  then show t: "Parse t = Some (u, None)" using upper_variant_Parse by blast
  from a canonical_Parse[of s u] show "String u = Some (map lower_case s)"
    by (simp add: String_eq_canonical)
  from a canonical_Parse[of s u] canonical_Parse[OF t]
  show "map lower_case t = map lower_case s" by simp
qed

theorem Parse_case_insensitive_witness:
  "Parse ''00010203-0405-4607-8809-0a0b0c0d0e0f''
     = Some ([0x00, 0x01, 0x02, 0x03, 0x04, 0x05, 0x46, 0x07, 0x88, 0x09, 0x0a, 0x0b, 0x0c, 0x0d, 0x0e, 0x0f], None)
   \<and> upper_variant ''00010203-0405-4607-8809-0a0b0c0d0e0f'' ''00010203-0405-4607-8809-0A0b0C0D0e0F''
   \<and> Parse ''00010203-0405-4607-8809-0A0b0C0D0e0F''
     = Some ([0x00, 0x01, 0x02, 0x03, 0x04, 0x05, 0x46, 0x07, 0x88, 0x09, 0x0a, 0x0b, 0x0c, 0x0d, 0x0e, 0x0f], None)
   \<and> String [0x00, 0x01, 0x02, 0x03, 0x04, 0x05, 0x46, 0x07, 0x88, 0x09, 0x0a, 0x0b, 0x0c, 0x0d, 0x0e, 0x0f]
     = Some ''00010203-0405-4607-8809-0a0b0c0d0e0f''
   \<and> String [0x00, 0x01, 0x02, 0x03, 0x04, 0x05, 0x46, 0x07, 0x88, 0x09, 0x0a, 0x0b, 0x0c, 0x0d, 0x0e, 0x0f]
     \<noteq> Some ''00010203-0405-4607-8809-0A0b0C0D0e0F''"
proof -
  let ?s = "''00010203-0405-4607-8809-0a0b0c0d0e0f''"
  let ?t = "''00010203-0405-4607-8809-0A0b0C0D0e0F''"
  let ?u = "[0x00, 0x01, 0x02, 0x03, 0x04, 0x05, 0x46, 0x07, 0x88, 0x09, 0x0a, 0x0b, 0x0c, 0x0d, 0x0e, 0x0f] :: UUID"
  have c: "canonical ?u = ?s" by (simp add: canonical_explicit hex_digit_def)
  have p: "Parse ?s = Some (?u, None)"
    using Parse_canonical[of ?u] by (simp only: c) simp
  have v: "upper_variant ?s ?t" by (simp add: upper_variant_def upper_case_def)
  have l: "map lower_case ?s = ?s" by (simp add: lower_case_def)
  from Parse_case_insensitive[of ?s ?u ?t] p v
  have "Parse ?t = Some (?u, None) \<and> String ?u = Some (map lower_case ?s)" by blast
  with p v show ?thesis by (simp only: l) simp
qed

text \<open>
  Claim C10. \<open>Parse\<close> of the all-zero canonical string succeeds and returns the nil
  identifier with no error; a failing \<open>Parse\<close> (here of the empty string) returns the
  nil identifier too, so that only the error tells the two apart.
\<close>

theorem Parse_nil_string:
  "Parse ''00000000-0000-0000-0000-000000000000'' = Some (Nil, None)
   \<and> Parse '''' = Some (Nil, Some (Errorf ''uuid: incorrect UUID length: ''))"
proof
  have "canonical Nil = ''00000000-0000-0000-0000-000000000000''"
    by (simp add: Nil_explicit canonical_explicit hex_digit_def)
  with Parse_canonical[of Nil]
  show "Parse ''00000000-0000-0000-0000-000000000000'' = Some (Nil, None)"
    by (simp add: Nil_def)
  show "Parse '''' = Some (Nil, Some (Errorf ''uuid: incorrect UUID length: ''))"
    by (simp add: Parse_def)
qed

theorem Parse_nil_string_witness:
  "map_option fst (Parse ''00000000-0000-0000-0000-000000000000'') = map_option fst (Parse '''')
   \<and> map_option snd (Parse ''00000000-0000-0000-0000-000000000000'') = Some None
   \<and> map_option snd (Parse '''') \<noteq> Some None"
  using Parse_nil_string by simp


end
